theory Spec2Isabelle
  imports Complex_Main "HOL-Library.Sublist"
begin

text \<open>
  A model of \<^verbatim>\<open>src/pdf_processor.py\<close>, the batch pipeline that turns the tables of a bank
  statement into a CSV file.  Every function of the pipeline is a function of the same
  name here.  A function that can raise returns a value of \<open>error + 'a\<close>, with \<^term>\<open>Inl\<close> for
  the exception.  What the libraries do (\<^verbatim>\<open>re\<close>, \<^verbatim>\<open>decimal\<close>, \<^verbatim>\<open>pandas\<close>) is modelled as far as
  the pipeline uses it; the date parser of \<^verbatim>\<open>pandas\<close> is a parameter.  Reading the PDF and
  finding its tables is outside the model: the pipeline starts from the data frames of
  the tables.  Printing is left out.
\<close>

section \<open>Strings\<close>

text \<open>
  Python strings are modelled as \<^typ>\<open>string\<close>, a list of 8-bit characters: the text is
  read as its UTF-8 bytes.  The only decimal digits are therefore the ASCII digits, and
  the only letters whose case changes are the ASCII letters; the decimal digits and the
  cased letters of other scripts, which \<^verbatim>\<open>\d\<close> and \<^verbatim>\<open>str.upper\<close> also know, are not modelled.
\<close>

definition is_digit :: "char \<Rightarrow> bool" where
  "is_digit c = (c \<in> set ''0123456789'')"

definition is_space :: "char \<Rightarrow> bool" where
  \<comment> \<open>the ASCII characters for which \<^verbatim>\<open>str.isspace\<close> holds\<close>
  "is_space c = (c \<in> {CHR '' '', CHR 0x09, CHR 0x0A, CHR 0x0B, CHR 0x0C, CHR 0x0D,
                       CHR 0x1C, CHR 0x1D, CHR 0x1E, CHR 0x1F})"

definition strip :: "string \<Rightarrow> string" where
  \<comment> \<open>\<^verbatim>\<open>str.strip()\<close>\<close>
  "strip s = rev (dropWhile is_space (rev (dropWhile is_space s)))"

definition replace_comma :: "string \<Rightarrow> string" where
  \<comment> \<open>\<^verbatim>\<open>s.replace(',', '')\<close>\<close>
  "replace_comma s = filter (\<lambda>c. c \<noteq> CHR '','') s"

definition digit_val :: "char \<Rightarrow> nat" where
  "digit_val c = of_char c - 48"

definition digits_val :: "string \<Rightarrow> nat" where
  \<comment> \<open>\<^verbatim>\<open>int(ds)\<close> for a string of digits; \<^verbatim>\<open>0\<close> for the empty string\<close>
  "digits_val ds = foldl (\<lambda>n c. 10 * n + digit_val c) 0 ds"

section \<open>Errors\<close>

text \<open>The exceptions the modelled code can raise, by their Python class.\<close>

datatype error =
    ValueError          \<comment> \<open>raised by \<^verbatim>\<open>clean_amount\<close>, \<^verbatim>\<open>validate_transaction_totals\<close>, \<^verbatim>\<open>pd.to_datetime\<close>\<close>
  | InvalidOperation    \<comment> \<open>\<^verbatim>\<open>decimal.InvalidOperation\<close>, raised by \<^verbatim>\<open>Decimal(str)\<close>\<close>
  | AttributeError      \<comment> \<open>a method of \<^verbatim>\<open>str\<close> called on a value that is no string\<close>
  | IndexError          \<comment> \<open>positional access outside a frame\<close>

section \<open>Decimal\<close>

text \<open>
  A finite \<^verbatim>\<open>decimal.Decimal\<close> is a sign, a coefficient and an exponent (the fields
  \<^verbatim>\<open>_sign\<close>, \<^verbatim>\<open>_int\<close>, \<^verbatim>\<open>_exp\<close>); its value is
  \<open>\<plusminus> coefficient \<times> 10\<^bsup>exponent\<^esup>\<close>.
\<close>

record decimal =
  d_sign :: bool   \<comment> \<open>\<^term>\<open>True\<close> for a negative number\<close>
  d_int :: nat
  d_exp :: int

definition dec_val :: "decimal \<Rightarrow> rat" where
  "dec_val d =
     (if d_sign d then - 1 else 1) * of_nat (d_int d) *
     (if 0 \<le> d_exp d then 10 ^ nat (d_exp d) else 1 / 10 ^ nat (- d_exp d))"

definition Decimal :: "string \<Rightarrow> error + decimal" where
  \<comment> \<open>\<^verbatim>\<open>Decimal(s)\<close> on text made of digits, signs, points and white space, which is all
      that \<^verbatim>\<open>clean_amount\<close> passes: an optional sign, digits with an optional point, at
      least one digit; the construction is exact.  The other forms \<^verbatim>\<open>Decimal\<close> reads
      (\<^verbatim>\<open>1E5\<close>, \<^verbatim>\<open>Infinity\<close>, \<^verbatim>\<open>NaN\<close>, \<^verbatim>\<open>1_000\<close>) need other characters and are not modelled.\<close>
  "Decimal s =
     (let t = strip s;
          neg = (t \<noteq> [] \<and> hd t = CHR ''-'');
          u = (if t \<noteq> [] \<and> (hd t = CHR ''-'' \<or> hd t = CHR ''+'') then tl t else t);
          ip = takeWhile is_digit u;
          r = dropWhile is_digit u;
          fp = (if r \<noteq> [] \<and> hd r = CHR ''.'' then tl r else r)
      in if list_all is_digit fp \<and> ip @ fp \<noteq> []
         then Inr \<lparr>d_sign = neg, d_int = digits_val (ip @ fp), d_exp = - int (length fp)\<rparr>
         else Inl InvalidOperation)"

section \<open>clean\_amount\<close>

definition in_class :: "char \<Rightarrow> bool" where
  \<comment> \<open>the character class \<^verbatim>\<open>[\d,-]\<close>\<close>
  "in_class c = (is_digit c \<or> c = CHR '','' \<or> c = CHR ''-'')"

definition match_here :: "string \<Rightarrow> string option" where
  \<comment> \<open>the pattern \<^verbatim>\<open>([\d,-]+\.\d+)$\<close> tried at the start of \<open>u\<close>: group 1 of the match.
      The class run is greedy and no shorter run can be followed by the point, which is
      outside the class; \<^verbatim>\<open>$\<close> matches at the end and before a final newline.\<close>
  "match_here u =
     (let run = takeWhile in_class u;
          r = dropWhile in_class u
      in if run \<noteq> [] \<and> r \<noteq> [] \<and> hd r = CHR ''.''
         then (let ds = takeWhile is_digit (tl r);
                   e = dropWhile is_digit (tl r)
               in if ds \<noteq> [] \<and> (e = [] \<or> e = [CHR 0x0A])
                  then Some (run @ CHR ''.'' # ds) else None)
         else None)"

fun re_search :: "string \<Rightarrow> string option" where
  \<comment> \<open>\<^verbatim>\<open>re.search\<close>: the first start position, left to right, at which the pattern matches\<close>
  "re_search [] = None"
| "re_search (c # cs) =
     (case match_here (c # cs) of Some m \<Rightarrow> Some m | None \<Rightarrow> re_search cs)"

definition normalize_minus :: "string \<Rightarrow> string" where
  \<comment> \<open>\<^verbatim>\<open>if amount_str.startswith('- '): amount_str = '-' + amount_str[2:]\<close>\<close>
  "normalize_minus s = (if prefix ''- '' s then CHR ''-'' # drop 2 s else s)"

definition clean_amount :: "string \<Rightarrow> error + decimal" where
  "clean_amount amount_str =
     (case re_search (normalize_minus amount_str) of
        None \<Rightarrow> Inl ValueError
      | Some m \<Rightarrow> Decimal (strip (replace_comma m)))"

subsection \<open>The trailing amount pattern\<close>

text \<open>
  What \<^verbatim>\<open>re.search(r'([\d,-]+\.\d+)$', s)\<close> finds, stated on the string: a match is a
  non-empty run of digits, commas and minus signs, a point and a non-empty run of digits;
  it ends the string, up to one final newline; and \<^verbatim>\<open>re.search\<close> returns the leftmost one.
\<close>

definition amount_pattern :: "string \<Rightarrow> bool" where
  "amount_pattern m =
     (\<exists>run ds. m = run @ CHR ''.'' # ds \<and> run \<noteq> [] \<and> list_all in_class run \<and>
                ds \<noteq> [] \<and> list_all is_digit ds)"

definition line_end :: "string \<Rightarrow> bool" where
  "line_end e = (e = [] \<or> e = [CHR 0x0A])"

definition leftmost_match :: "string \<Rightarrow> string \<Rightarrow> bool" where
  "leftmost_match t m =
     (\<exists>pre e. t = pre @ m @ e \<and> amount_pattern m \<and> line_end e \<and>
              (pre = [] \<or> \<not> in_class (last pre)))"

definition has_trailing_match :: "string \<Rightarrow> bool" where
  "has_trailing_match t = (\<exists>pre m e. t = pre @ m @ e \<and> amount_pattern m \<and> line_end e)"

lemma not_class_dot [simp]: "\<not> in_class CHR ''.''" "\<not> in_class CHR 0x0A"
  by (simp_all add: in_class_def is_digit_def)

lemma not_digit_dot [simp]: "\<not> is_digit CHR ''.''" "\<not> is_digit CHR 0x0A" "\<not> is_digit CHR ''-''"
  by (simp_all add: is_digit_def)

lemma digit_in_class: "is_digit c \<Longrightarrow> in_class c"
  by (simp add: in_class_def)

lemma match_here_iff:
  "match_here u = Some m \<longleftrightarrow> (\<exists>e. u = m @ e \<and> amount_pattern m \<and> line_end e)"
proof
  assume h: "match_here u = Some m"
  define run where "run = takeWhile in_class u"
  define r where "r = dropWhile in_class u"
  define ds where "ds = takeWhile is_digit (tl r)"
  define e where "e = dropWhile is_digit (tl r)"
  from h have c: "run \<noteq> []" "r \<noteq> []" "hd r = CHR ''.''" "ds \<noteq> []" "line_end e" "m = run @ CHR ''.'' # ds"
    by (auto simp: match_here_def Let_def run_def r_def ds_def e_def line_end_def split: if_splits)
  have "u = run @ r" by (simp add: run_def r_def)
  moreover have "r = CHR ''.'' # tl r" using c by (cases r) auto
  moreover have "tl r = ds @ e" by (simp add: ds_def e_def)
  ultimately have "u = m @ e" using c by simp
  moreover have "list_all in_class run" "list_all is_digit ds"
    by (auto simp: run_def ds_def list_all_iff dest: set_takeWhileD)
  ultimately show "\<exists>e. u = m @ e \<and> amount_pattern m \<and> line_end e"
    using c unfolding amount_pattern_def by blast
next
  assume "\<exists>e. u = m @ e \<and> amount_pattern m \<and> line_end e"
  then obtain e run ds where u: "u = m @ e" and m: "m = run @ CHR ''.'' # ds" and
    p: "run \<noteq> []" "list_all in_class run" "ds \<noteq> []" "list_all is_digit ds" and e: "line_end e"
    unfolding amount_pattern_def by blast
  have u': "u = run @ CHR ''.'' # (ds @ e)" using u m by simp
  have 1: "takeWhile in_class u = run" "dropWhile in_class u = CHR ''.'' # (ds @ e)"
    using p unfolding u' by (simp_all add: takeWhile_append2 dropWhile_append2 list_all_iff)
  have 2: "takeWhile is_digit (ds @ e) = ds" "dropWhile is_digit (ds @ e) = e"
    using p e by (auto simp: takeWhile_append2 dropWhile_append2 list_all_iff line_end_def)
  have "match_here u = (if ds \<noteq> [] \<and> (e = [] \<or> e = [CHR 0x0A]) then Some (run @ CHR ''.'' # ds) else None)"
    unfolding match_here_def Let_def 1 list.sel 2 using p by simp
  then show "match_here u = Some m"
    using p e by (simp add: m line_end_def)
qed

lemma nonclass_of_match:
  "amount_pattern m \<Longrightarrow> filter (\<lambda>c. \<not> in_class c) m = [CHR ''.'']"
  by (auto simp: amount_pattern_def list_all_iff filter_empty_conv digit_in_class)

lemma match_here_blocked:
  assumes "amount_pattern m" "line_end e" "pre \<noteq> []" "\<not> in_class (last pre)"
  shows "match_here (pre @ m @ e) = None"
proof (rule ccontr)
  assume "match_here (pre @ m @ e) \<noteq> None"
  then obtain m' e' where a: "pre @ m @ e = m' @ e'" "amount_pattern m'" "line_end e'"
    by (auto simp: match_here_iff)
  let ?F = "filter (\<lambda>c. \<not> in_class c)"
  have "?F (pre @ m @ e) = ?F (m' @ e')" using a by simp
  then have eq: "?F pre @ CHR ''.'' # e = CHR ''.'' # e'"
    using assms(1,2) a(2,3) by (auto simp: nonclass_of_match line_end_def)
  have "pre = butlast pre @ [last pre]" using assms(3) by simp
  then have "?F pre = ?F (butlast pre @ [last pre])" by simp
  then have "?F pre = ?F (butlast pre) @ [last pre]"
    using assms(4) by (simp del: append_butlast_last_id)
  then have "?F pre \<noteq> []" by simp
  with eq assms(2) a(3) show False
    by (cases "?F pre") (auto simp: line_end_def)
qed

lemma amount_pattern_nonempty: "amount_pattern m \<Longrightarrow> m \<noteq> []"
  by (auto simp: amount_pattern_def)

lemma re_search_iff: "re_search t = Some m \<longleftrightarrow> leftmost_match t m"
proof
  show "re_search t = Some m \<Longrightarrow> leftmost_match t m"
  proof (induction t)
    case Nil then show ?case by simp
  next
    case (Cons c cs)
    show ?case
    proof (cases "match_here (c # cs)")
      case (Some m')
      with Cons.prems have "match_here (c # cs) = Some m" by simp
      then obtain e where "c # cs = m @ e" "amount_pattern m" "line_end e"
        unfolding match_here_iff by blast
      then have "c # cs = [] @ m @ e \<and> amount_pattern m \<and> line_end e \<and>
          (([]::string) = [] \<or> \<not> in_class (last []))" by simp
      then show ?thesis unfolding leftmost_match_def by blast
    next
      case None
      with Cons.prems have "re_search cs = Some m" by simp
      then obtain pre e where d: "cs = pre @ m @ e" "amount_pattern m" "line_end e"
        "pre = [] \<or> \<not> in_class (last pre)"
        using Cons.IH unfolding leftmost_match_def by blast
      have "\<not> in_class (last (c # pre))"
      proof (cases "pre = []")
        case True
        have "\<not> in_class c"
        proof
          assume ic: "in_class c"
          obtain run ds where rd: "m = run @ CHR ''.'' # ds" "run \<noteq> []" "list_all in_class run"
            "ds \<noteq> []" "list_all is_digit ds"
            using d(2) unfolding amount_pattern_def by blast
          have "amount_pattern (c # m)"
            unfolding amount_pattern_def
            by (rule exI[of _ "c # run"], rule exI[of _ ds]) (use rd ic in simp)
          then have "match_here (c # cs) = Some (c # m)"
            unfolding match_here_iff using d True by auto
          with None show False by simp
        qed
        with True show ?thesis by simp
      next
        case False
        with d(4) show ?thesis by simp
      qed
      then have "c # cs = (c # pre) @ m @ e \<and> amount_pattern m \<and> line_end e \<and>
          (c # pre = [] \<or> \<not> in_class (last (c # pre)))" using d by simp
      then show ?thesis unfolding leftmost_match_def by blast
    qed
  qed
next
  assume "leftmost_match t m"
  then obtain pre e where d: "t = pre @ m @ e" "amount_pattern m" "line_end e"
    "pre = [] \<or> \<not> in_class (last pre)"
    unfolding leftmost_match_def by blast
  have base: "re_search (m @ e) = Some m"
  proof -
    have "match_here (m @ e) = Some m" unfolding match_here_iff using d by blast
    moreover obtain x xs where "m @ e = x # xs"
      using amount_pattern_nonempty[OF d(2)] by (cases m) auto
    ultimately show ?thesis by simp
  qed
  from d(4) have "re_search (pre @ m @ e) = Some m"
  proof (induction pre)
    case Nil
    then show ?case using base by simp
  next
    case (Cons c pre)
    have nc: "\<not> in_class (last (c # pre))" using Cons.prems by simp
    have "match_here ((c # pre) @ m @ e) = None"
      by (rule match_here_blocked[OF d(2,3) _ nc]) simp
    moreover have "re_search (pre @ m @ e) = Some m"
    proof (cases "pre = []")
      case True then show ?thesis using base by simp
    next
      case False
      with nc have "\<not> in_class (last pre)" by simp
      then show ?thesis using Cons.IH by simp
    qed
    ultimately show ?case by simp
  qed
  then show "re_search t = Some m" using d by simp
qed

lemma re_search_None_iff: "re_search t = None \<longleftrightarrow> \<not> has_trailing_match t"
proof
  show "re_search t = None \<Longrightarrow> \<not> has_trailing_match t"
  proof (induction t)
    case Nil
    then show ?case by (auto simp: has_trailing_match_def amount_pattern_def)
  next
    case (Cons c cs)
    then have n: "match_here (c # cs) = None" "re_search cs = None"
      by (auto split: option.splits)
    show ?case
    proof
      assume "has_trailing_match (c # cs)"
      then obtain pre m e where d: "c # cs = pre @ m @ e" "amount_pattern m" "line_end e"
        unfolding has_trailing_match_def by blast
      show False
      proof (cases pre)
        case Nil
        with d have "match_here (c # cs) = Some m" unfolding match_here_iff by auto
        with n show False by simp
      next
        case (Cons p ps)
        with d have "cs = ps @ m @ e" by simp
        with d have "has_trailing_match cs" unfolding has_trailing_match_def by blast
        with Cons.IH n show False by simp
      qed
    qed
  qed
next
  show "\<not> has_trailing_match t \<Longrightarrow> re_search t = None"
  proof (rule ccontr)
    assume a: "\<not> has_trailing_match t" "re_search t \<noteq> None"
    then obtain m where "re_search t = Some m" by auto
    then have "leftmost_match t m" by (simp add: re_search_iff)
    then have "has_trailing_match t"
      unfolding leftmost_match_def has_trailing_match_def by blast
    with a show False by simp
  qed
qed


subsection \<open>The value of a decimal literal\<close>

text \<open>
  The number a plain literal denotes, read off its text: the digits before the point, plus
  the digits after it over the matching power of ten, negated after a leading minus.
\<close>

definition literal_val :: "string \<Rightarrow> rat" where
  "literal_val u =
     (let neg = (u \<noteq> [] \<and> hd u = CHR ''-'');
          body = (if neg then tl u else u);
          ip = takeWhile (\<lambda>c. c \<noteq> CHR ''.'') body;
          fp = tl (dropWhile (\<lambda>c. c \<noteq> CHR ''.'') body)
      in (if neg then - 1 else 1) *
         (of_nat (digits_val ip) + of_nat (digits_val fp) / 10 ^ length fp))"

lemma digits_val_snoc: "digits_val (a @ [c]) = 10 * digits_val a + digit_val c"
  by (simp add: digits_val_def)

lemma digits_val_append: "digits_val (a @ b) = digits_val a * 10 ^ length b + digits_val b"
proof (induction b rule: rev_induct)
  case Nil
  then show ?case by (simp add: digits_val_def)
next
  case (snoc c b)
  have "digits_val (a @ b @ [c]) = 10 * digits_val (a @ b) + digit_val c"
    using digits_val_snoc[of "a @ b" c] by simp
  then show ?case using snoc by (simp add: digits_val_snoc algebra_simps)
qed

lemma not_space_digit: "is_digit c \<Longrightarrow> \<not> is_space c"
  by (auto simp: is_digit_def is_space_def)

lemma not_space_misc [simp]: "\<not> is_space CHR ''.''" "\<not> is_space CHR ''-''"
  by (simp_all add: is_space_def)

lemma strip_id: "u \<noteq> [] \<Longrightarrow> \<not> is_space (hd u) \<Longrightarrow> \<not> is_space (last u) \<Longrightarrow> strip u = u"
proof -
  assume a: "u \<noteq> []" "\<not> is_space (hd u)" "\<not> is_space (last u)"
  have 1: "dropWhile is_space u = u" using a by (simp add: dropWhile_eq_self_iff)
  have "hd (rev u) = last u" using a by (simp add: hd_rev)
  then have 2: "dropWhile is_space (rev u) = rev u" using a by (simp add: dropWhile_eq_self_iff)
  show ?thesis by (simp add: strip_def 1 2)
qed

lemma Decimal_core:
  assumes "strip u = u" "u \<noteq> []"
  shows "Decimal u =
     (let neg = (hd u = CHR ''-'');
          w = (if hd u = CHR ''-'' \<or> hd u = CHR ''+'' then tl u else u);
          ip = takeWhile is_digit w;
          r = dropWhile is_digit w;
          fp = (if r \<noteq> [] \<and> hd r = CHR ''.'' then tl r else r)
      in if list_all is_digit fp \<and> ip @ fp \<noteq> []
         then Inr \<lparr>d_sign = neg, d_int = digits_val (ip @ fp), d_exp = - int (length fp)\<rparr>
         else Inl InvalidOperation)"
  using assms by (simp add: Decimal_def Let_def)

lemma split_digits:
  assumes "list_all is_digit ip" "\<not> is_digit c"
  shows "takeWhile is_digit (ip @ c # v) = ip" "dropWhile is_digit (ip @ c # v) = c # v"
  using assms by (simp_all add: takeWhile_append2 dropWhile_append2 list_all_iff)

lemma Decimal_pos:
  assumes "list_all is_digit ip" "list_all is_digit fp" "fp \<noteq> []"
  shows "Decimal (ip @ CHR ''.'' # fp) =
     Inr \<lparr>d_sign = False, d_int = digits_val (ip @ fp), d_exp = - int (length fp)\<rparr>"
proof -
  let ?u = "ip @ CHR ''.'' # fp"
  have h: "hd ?u = CHR ''.'' \<or> is_digit (hd ?u)" using assms(1) by (cases ip) auto
  have l: "is_digit (last ?u)" using assms(2,3) by (simp add: list_all_iff)
  have s: "strip ?u = ?u"
    by (rule strip_id) (use h l in \<open>auto simp: not_space_digit\<close>)
  have nm: "hd ?u \<noteq> CHR ''-''" "hd ?u \<noteq> CHR ''+''" using h by (auto simp: is_digit_def)
  show ?thesis
    unfolding Decimal_core[OF s, simplified] Let_def using nm assms
    by (simp add: split_digits)
qed

lemma Decimal_neg:
  assumes "list_all is_digit ip" "list_all is_digit fp" "fp \<noteq> []"
  shows "Decimal (CHR ''-'' # ip @ CHR ''.'' # fp) =
     Inr \<lparr>d_sign = True, d_int = digits_val (ip @ fp), d_exp = - int (length fp)\<rparr>"
proof -
  let ?u = "CHR ''-'' # ip @ CHR ''.'' # fp"
  have l: "is_digit (last ?u)" using assms(2,3) by (simp add: list_all_iff)
  have s: "strip ?u = ?u"
    by (rule strip_id) (use l in \<open>auto simp: not_space_digit\<close>)
  show ?thesis
    unfolding Decimal_core[OF s, simplified] Let_def using assms
    by (simp add: split_digits)
qed

lemma Decimal_bad0:
  assumes "list_all is_digit ip" "ip \<noteq> []" "strip (ip @ CHR ''-'' # v) = ip @ CHR ''-'' # v"
  shows "Decimal (ip @ CHR ''-'' # v) = Inl InvalidOperation"
proof -
  have "is_digit (hd ip)" using assms(1,2) by (cases ip) auto
  then have nm: "hd ip \<noteq> CHR ''-''" "hd ip \<noteq> CHR ''+''" by (auto simp: is_digit_def)
  show ?thesis
    unfolding Decimal_core[OF assms(3), simplified] Let_def using nm assms(1,2)
    by (simp add: split_digits)
qed

lemma Decimal_bad1:
  assumes "list_all is_digit ip"
    "strip (CHR ''-'' # ip @ CHR ''-'' # v) = CHR ''-'' # ip @ CHR ''-'' # v"
  shows "Decimal (CHR ''-'' # ip @ CHR ''-'' # v) = Inl InvalidOperation"
  unfolding Decimal_core[OF assms(2), simplified] Let_def using assms(1)
  by (simp add: split_digits)

definition in_signed :: "char \<Rightarrow> bool" where
  "in_signed c = (is_digit c \<or> c = CHR ''-'')"

lemma signed_split:
  assumes "list_all in_signed w" "CHR ''-'' \<in> set w"
  shows "\<exists>ip v. w = ip @ CHR ''-'' # v \<and> list_all is_digit ip"
proof -
  let ?ip = "takeWhile is_digit w" and ?r = "dropWhile is_digit w"
  have "?r \<noteq> []"
  proof
    assume "?r = []"
    then have "\<forall>x\<in>set w. is_digit x" by (simp add: dropWhile_eq_Nil_conv)
    with assms(2) have "is_digit CHR ''-''" by blast
    then show False by simp
  qed
  then have "\<not> is_digit (hd ?r)" by (rule hd_dropWhile)
  moreover have "hd ?r \<in> set w" using \<open>?r \<noteq> []\<close>
    by (metis hd_in_set set_dropWhileD)
  ultimately have "hd ?r = CHR ''-''" using assms(1) by (auto simp: list_all_iff in_signed_def)
  then have "?r = CHR ''-'' # tl ?r" using \<open>?r \<noteq> []\<close> by (cases ?r) auto
  then have "w = ?ip @ CHR ''-'' # tl ?r" by (metis takeWhile_dropWhile_id)
  moreover have "list_all is_digit ?ip" by (auto simp: list_all_iff dest: set_takeWhileD)
  ultimately show ?thesis by blast
qed

lemma dec_val_parts:
  assumes "fp \<noteq> []"
  shows "dec_val \<lparr>d_sign = neg, d_int = digits_val (ip @ fp), d_exp = - int (length fp)\<rparr> =
     (if neg then - 1 else 1) * (of_nat (digits_val ip) + of_nat (digits_val fp) / 10 ^ length fp)"
proof -
  have e: "\<not> 0 \<le> - int (length fp)" using assms by simp
  have "dec_val \<lparr>d_sign = neg, d_int = digits_val (ip @ fp), d_exp = - int (length fp)\<rparr> =
      (if neg then - 1 else 1) * (of_nat (digits_val (ip @ fp)) / 10 ^ length fp)"
    unfolding dec_val_def using e by simp
  also have "of_nat (digits_val (ip @ fp)) / (10::rat) ^ length fp =
      of_nat (digits_val ip) + of_nat (digits_val fp) / 10 ^ length fp"
    by (simp add: digits_val_append add_divide_distrib)
  finally show ?thesis .
qed

lemma not_dot_digit: "is_digit c \<Longrightarrow> c \<noteq> CHR ''.''"
  by (auto simp: is_digit_def)

lemma split_dot:
  assumes "list_all is_digit ip"
  shows "takeWhile (\<lambda>c. c \<noteq> CHR ''.'') (ip @ CHR ''.'' # fp) = ip"
    "dropWhile (\<lambda>c. c \<noteq> CHR ''.'') (ip @ CHR ''.'' # fp) = CHR ''.'' # fp"
  using assms by (simp_all add: takeWhile_append2 dropWhile_append2 list_all_iff not_dot_digit)

lemma literal_val_pos:
  assumes "list_all is_digit ip"
  shows "literal_val (ip @ CHR ''.'' # fp) =
     of_nat (digits_val ip) + of_nat (digits_val fp) / 10 ^ length fp"
proof -
  have "hd (ip @ CHR ''.'' # fp) \<noteq> CHR ''-''"
    using assms by (cases ip) (auto simp: is_digit_def)
  then show ?thesis using assms by (simp add: literal_val_def Let_def split_dot)
qed

lemma literal_val_neg:
  assumes "list_all is_digit ip"
  shows "literal_val (CHR ''-'' # ip @ CHR ''.'' # fp) =
     - (of_nat (digits_val ip) + of_nat (digits_val fp) / 10 ^ length fp)"
  using assms by (simp add: literal_val_def Let_def split_dot)

lemma Decimal_literal_ok:
  assumes "list_all in_signed run" "list_all is_digit ds" "ds \<noteq> []"
    "CHR ''-'' \<notin> set (tl (run @ CHR ''.'' # ds))"
  shows "\<exists>d. Decimal (run @ CHR ''.'' # ds) = Inr d \<and>
     dec_val d = literal_val (run @ CHR ''.'' # ds) \<and> d_exp d = - int (length ds)"
proof (cases run)
  case Nil
  then show ?thesis
    using Decimal_pos[of "[]" ds] literal_val_pos[of "[]" ds] dec_val_parts[of ds False "[]"] assms
    by simp
next
  case (Cons c w)
  with assms(4) have nw: "CHR ''-'' \<notin> set w" by simp
  have dw: "list_all is_digit w" using assms(1) nw Cons
    by (auto simp: list_all_iff in_signed_def)
  show ?thesis
  proof (cases "c = CHR ''-''")
    case True
    then show ?thesis
      using Decimal_neg[OF dw assms(2,3)] literal_val_neg[OF dw, of ds]
        dec_val_parts[OF assms(3), of True w] Cons by simp
  next
    case False
    then have "is_digit c" using assms(1) Cons by (simp add: in_signed_def)
    then have dr: "list_all is_digit run" using dw Cons by simp
    show ?thesis
      using Decimal_pos[OF dr assms(2,3)] literal_val_pos[OF dr, of ds]
        dec_val_parts[OF assms(3), of False run] by simp
  qed
qed

lemma Decimal_literal_bad:
  assumes "list_all in_signed run" "list_all is_digit ds" "ds \<noteq> []"
    "CHR ''-'' \<in> set (tl (run @ CHR ''.'' # ds))"
  shows "Decimal (run @ CHR ''.'' # ds) = Inl InvalidOperation"
proof (cases run)
  case Nil
  with assms(2,4) show ?thesis by (auto simp: list_all_iff)
next
  case (Cons c w)
  have "CHR ''-'' \<notin> set ds" using assms(2) by (auto simp: list_all_iff)
  with assms(4) Cons have mw: "CHR ''-'' \<in> set w" by auto
  have sw: "list_all in_signed w" using assms(1) Cons by simp
  obtain ip v where w: "w = ip @ CHR ''-'' # v" "list_all is_digit ip"
    using signed_split[OF sw mw] by blast
  let ?u = "run @ CHR ''.'' # ds"
  have l: "is_digit (last ?u)" using assms(2,3) by (simp add: list_all_iff)
  have h: "\<not> is_space (hd ?u)" using assms(1) Cons
    by (auto simp: in_signed_def not_space_digit)
  have s: "strip ?u = ?u"
    by (rule strip_id) (use l h in \<open>auto simp: not_space_digit\<close>)
  show ?thesis
  proof (cases "c = CHR ''-''")
    case True
    have e: "?u = CHR ''-'' # ip @ CHR ''-'' # (v @ CHR ''.'' # ds)" using Cons w True by simp
    show ?thesis using Decimal_bad1[OF w(2), of "v @ CHR ''.'' # ds"] s unfolding e by simp
  next
    case False
    then have dc: "is_digit c" using assms(1) Cons by (simp add: in_signed_def)
    have e: "?u = (c # ip) @ CHR ''-'' # (v @ CHR ''.'' # ds)" using Cons w by simp
    show ?thesis
      using Decimal_bad0[of "c # ip" "v @ CHR ''.'' # ds"] s dc w(2) unfolding e by simp
  qed
qed

lemma not_comma_digit: "is_digit c \<Longrightarrow> c \<noteq> CHR '',''"
  by (auto simp: is_digit_def)

lemma class_signed: "in_class c \<Longrightarrow> c \<noteq> CHR '','' \<Longrightarrow> in_signed c"
  by (simp add: in_class_def in_signed_def)

lemma stripped_match:
  assumes "amount_pattern m"
  shows "\<exists>run ds. replace_comma m = run @ CHR ''.'' # ds \<and> list_all in_signed run \<and>
     list_all is_digit ds \<and> ds \<noteq> []"
proof -
  obtain run ds where rd: "m = run @ CHR ''.'' # ds" "list_all in_class run"
    "ds \<noteq> []" "list_all is_digit ds"
    using assms unfolding amount_pattern_def by blast
  have "\<forall>c\<in>set ds. c \<noteq> CHR '',''"
    using rd(4) not_comma_digit unfolding list_all_iff by blast
  then have nc: "filter (\<lambda>c. c \<noteq> CHR '','') ds = ds"
    by (simp add: filter_id_conv)
  have "replace_comma m = filter (\<lambda>c. c \<noteq> CHR '','') run @ CHR ''.'' # ds"
    using rd(1) nc by (simp add: replace_comma_def)
  moreover have "list_all in_signed (filter (\<lambda>c. c \<noteq> CHR '','') run)"
    using rd(2) class_signed unfolding list_all_iff by auto
  ultimately show ?thesis using rd by blast
qed

lemma strip_stripped:
  assumes "list_all in_signed run" "list_all is_digit ds" "ds \<noteq> []"
  shows "strip (run @ CHR ''.'' # ds) = run @ CHR ''.'' # ds"
proof (rule strip_id)
  show "run @ CHR ''.'' # ds \<noteq> []" by simp
  show "\<not> is_space (hd (run @ CHR ''.'' # ds))"
    using assms(1) by (cases run) (auto simp: in_signed_def not_space_digit)
  show "\<not> is_space (last (run @ CHR ''.'' # ds))"
    using assms(2,3) by (simp add: list_all_iff not_space_digit)
qed

lemma clean_amount_cases:
  "clean_amount s = Inl ValueError \<and> re_search (normalize_minus s) = None \<or>
   (\<exists>m. re_search (normalize_minus s) = Some m \<and> CHR ''-'' \<notin> set (tl (replace_comma m)) \<and>
        (\<exists>d. clean_amount s = Inr d \<and> dec_val d = literal_val (replace_comma m))) \<or>
   (\<exists>m. re_search (normalize_minus s) = Some m \<and> CHR ''-'' \<in> set (tl (replace_comma m)) \<and>
        clean_amount s = Inl InvalidOperation)"
proof (cases "re_search (normalize_minus s)")
  case None
  then show ?thesis by (simp add: clean_amount_def)
next
  case (Some m)
  then have "amount_pattern m" by (auto simp: re_search_iff leftmost_match_def)
  then obtain run ds where rd: "replace_comma m = run @ CHR ''.'' # ds" "list_all in_signed run"
    "list_all is_digit ds" "ds \<noteq> []"
    using stripped_match by blast
  have c: "clean_amount s = Decimal (replace_comma m)"
    using Some strip_stripped[OF rd(2,3,4)] by (simp add: clean_amount_def rd(1))
  show ?thesis
  proof (cases "CHR ''-'' \<in> set (tl (replace_comma m))")
    case True
    then have "clean_amount s = Inl InvalidOperation"
      using Decimal_literal_bad[OF rd(2,3,4)] c by (simp add: rd(1))
    with True Some show ?thesis by blast
  next
    case False
    then have "\<exists>d. clean_amount s = Inr d \<and> dec_val d = literal_val (replace_comma m)"
      using Decimal_literal_ok[OF rd(2,3,4)] c by (auto simp: rd(1))
    with False Some show ?thesis by blast
  qed
qed


lemma has_trailing_matchI: "re_search t = Some m \<Longrightarrow> has_trailing_match t"
  using re_search_None_iff[of t] by auto

lemmas amount_eval = clean_amount_def normalize_minus_def match_here_def in_class_def
  replace_comma_def Decimal_def strip_def is_space_def is_digit_def digits_val_def digit_val_def

text \<open>
  Claim C2, as the code has it.  When the trailing match of the normalised string, with its
  commas removed, carries no minus sign after its first character, \<^const>\<open>clean_amount\<close>
  returns exactly the number that text denotes.  A leading minus followed by one space
  loses that one space before the search.  The three documented examples hold:
  \<^verbatim>\<open>"- 1,000.00"\<close> gives \<open>-1000\<close>, \<^verbatim>\<open>"Total: 1,000.00"\<close> gives \<open>1000\<close>, and
  \<^verbatim>\<open>"invalid"\<close> raises \<^verbatim>\<open>ValueError\<close>.
\<close>

theorem clean_amount_value:
  "(leftmost_match (normalize_minus s) m \<and> CHR ''-'' \<notin> set (tl (replace_comma m)) \<longrightarrow>
      (\<exists>d. clean_amount s = Inr d \<and> dec_val d = literal_val (replace_comma m))) \<and>
   normalize_minus (''- '' @ r) = CHR ''-'' # r \<and>
   (\<exists>d. clean_amount ''- 1,000.00'' = Inr d \<and> dec_val d = - 1000) \<and>
   (\<exists>d. clean_amount ''Total: 1,000.00'' = Inr d \<and> dec_val d = 1000) \<and>
   clean_amount ''invalid'' = Inl ValueError"
proof (intro conjI impI)
  assume a: "leftmost_match (normalize_minus s) m \<and> CHR ''-'' \<notin> set (tl (replace_comma m))"
  then have "re_search (normalize_minus s) = Some m" by (simp add: re_search_iff)
  with a clean_amount_cases[of s]
  show "\<exists>d. clean_amount s = Inr d \<and> dec_val d = literal_val (replace_comma m)" by auto
next
  show "normalize_minus (''- '' @ r) = CHR ''-'' # r" by (simp add: normalize_minus_def)
next
  have "clean_amount ''- 1,000.00'' = Inr \<lparr>d_sign = True, d_int = 100000, d_exp = - 2\<rparr>"
    by (simp add: amount_eval)
  then show "\<exists>d. clean_amount ''- 1,000.00'' = Inr d \<and> dec_val d = - 1000"
    by (simp add: dec_val_def)
next
  have "clean_amount ''Total: 1,000.00'' = Inr \<lparr>d_sign = False, d_int = 100000, d_exp = - 2\<rparr>"
    by (simp add: amount_eval)
  then show "\<exists>d. clean_amount ''Total: 1,000.00'' = Inr d \<and> dec_val d = 1000"
    by (simp add: dec_val_def)
next
  show "clean_amount ''invalid'' = Inl ValueError" by (simp add: amount_eval)
qed

text \<open>The theorem of C2 at \<^verbatim>\<open>"cost 1,234.50"\<close>, whose match is \<^verbatim>\<open>"1,234.50"\<close>.\<close>

theorem clean_amount_value_witness:
  "leftmost_match (normalize_minus ''cost 1,234.50'') ''1,234.50'' \<and>
   CHR ''-'' \<notin> set (tl (replace_comma ''1,234.50'')) \<and>
   (\<exists>d. clean_amount ''cost 1,234.50'' = Inr d \<and> dec_val d = 2469 / 2)"
proof -
  have 1: "leftmost_match (normalize_minus ''cost 1,234.50'') ''1,234.50''"
    unfolding re_search_iff[symmetric] by (simp add: amount_eval)
  have 2: "CHR ''-'' \<notin> set (tl (replace_comma ''1,234.50''))"
    by (simp add: replace_comma_def)
  have 3: "literal_val (replace_comma ''1,234.50'') = 2469 / 2"
    by (simp add: literal_val_def replace_comma_def digits_val_def digit_val_def)
  from clean_amount_value[of "''cost 1,234.50''" "''1,234.50''"] 1 2 3
  show ?thesis by simp
qed

text \<open>
  Claim C2 as stated fails.  \<^verbatim>\<open>"-  5.00"\<close> begins with a minus sign followed by
  whitespace (two spaces); only the first space is removed, the search then finds
  \<^verbatim>\<open>"5.00"\<close>, and the result is \<open>+5.00\<close>, not \<open>-5.00\<close>.  And \<^verbatim>\<open>"3-4.00"\<close> has a trailing
  match but no decimal value is returned: \<^verbatim>\<open>Decimal("3-4.00")\<close> raises.
\<close>

theorem clean_amount_whitespace_counterexample:
  "hd ''-  5.00'' = CHR ''-'' \<and> is_space (''-  5.00'' ! 1) \<and> is_space (''-  5.00'' ! 2) \<and>
   clean_amount ''-  5.00'' = Inr \<lparr>d_sign = False, d_int = 500, d_exp = - 2\<rparr> \<and>
   dec_val \<lparr>d_sign = False, d_int = 500, d_exp = - 2\<rparr> = 5 \<and>
   has_trailing_match ''3-4.00'' \<and> clean_amount ''3-4.00'' = Inl InvalidOperation"
proof -
  have "re_search ''3-4.00'' = Some ''3-4.00''" by (simp add: amount_eval)
  then have "has_trailing_match ''3-4.00''" by (rule has_trailing_matchI)
  then show ?thesis by (simp add: amount_eval dec_val_def)
qed

text \<open>
  Claim C3, as the code has it.  \<^const>\<open>clean_amount\<close> raises \<^verbatim>\<open>ValueError\<close> exactly when the
  string, after the leading \<^verbatim>\<open>"- "\<close> is rewritten to \<^verbatim>\<open>"-"\<close>, has no trailing match.
  When it has one, the call returns a number exactly when the leftmost match, commas
  removed, has no minus sign after its first character, and raises
  \<^verbatim>\<open>decimal.InvalidOperation\<close> exactly when it has one.
\<close>

theorem clean_amount_error_cases:
  "(clean_amount s = Inl ValueError \<longleftrightarrow> \<not> has_trailing_match (normalize_minus s)) \<and>
   ((\<exists>d. clean_amount s = Inr d) \<longleftrightarrow>
      (\<exists>m. leftmost_match (normalize_minus s) m \<and> CHR ''-'' \<notin> set (tl (replace_comma m)))) \<and>
   (clean_amount s = Inl InvalidOperation \<longleftrightarrow>
      (\<exists>m. leftmost_match (normalize_minus s) m \<and> CHR ''-'' \<in> set (tl (replace_comma m))))"
  using clean_amount_cases[of s]
  unfolding re_search_iff[symmetric] re_search_None_iff[symmetric]
  by auto

text \<open>
  Claim C3 as stated fails: \<^verbatim>\<open>"1-2.00"\<close> has a trailing match, and \<^const>\<open>clean_amount\<close>
  raises \<^verbatim>\<open>decimal.InvalidOperation\<close> on it.
\<close>

theorem clean_amount_invalid_operation_counterexample:
  "has_trailing_match ''1-2.00'' \<and> clean_amount ''1-2.00'' = Inl InvalidOperation"
proof -
  have "re_search ''1-2.00'' = Some ''1-2.00''" by (simp add: amount_eval)
  then have "has_trailing_match ''1-2.00''" by (rule has_trailing_matchI)
  then show ?thesis by (simp add: amount_eval)
qed

text \<open>
  The theorem of C3 at \<^verbatim>\<open>"balance"\<close>, which has no trailing match, and at \<^verbatim>\<open>"fee -7.25"\<close>,
  whose match \<^verbatim>\<open>"-7.25"\<close> is a number.
\<close>

theorem clean_amount_error_cases_witness:
  "clean_amount ''balance'' = Inl ValueError \<and> \<not> has_trailing_match (normalize_minus ''balance'') \<and>
   clean_amount ''fee -7.25'' = Inr \<lparr>d_sign = True, d_int = 725, d_exp = - 2\<rparr> \<and>
   (\<exists>m. leftmost_match (normalize_minus ''fee -7.25'') m \<and>
        CHR ''-'' \<notin> set (tl (replace_comma m)))"
proof -
  have 1: "clean_amount ''balance'' = Inl ValueError" by (simp add: amount_eval)
  have 2: "clean_amount ''fee -7.25'' = Inr \<lparr>d_sign = True, d_int = 725, d_exp = - 2\<rparr>"
    by (simp add: amount_eval)
  from clean_amount_error_cases[of "''balance''"] 1
  have 3: "\<not> has_trailing_match (normalize_minus ''balance'')" by simp
  from clean_amount_error_cases[of "''fee -7.25''"] 2
  have 4: "\<exists>m. leftmost_match (normalize_minus ''fee -7.25'') m \<and>
        CHR ''-'' \<notin> set (tl (replace_comma m))" by blast
  from 1 2 3 4 show ?thesis by blast
qed

subsection \<open>Arithmetic in the default context\<close>

definition prec :: nat where
  \<comment> \<open>\<^verbatim>\<open>getcontext().prec\<close> of the default context\<close>
  "prec = 28"

definition digit_char :: "nat \<Rightarrow> char" where
  "digit_char n = ''0123456789'' ! n"

fun digits_of :: "nat \<Rightarrow> string" where
  \<comment> \<open>\<^verbatim>\<open>str(n)\<close> of a non-negative integer\<close>
  "digits_of n = (if n < 10 then [digit_char n] else digits_of (n div 10) @ [digit_char (n mod 10)])"

declare digits_of.simps [simp del]

definition dec_fix :: "decimal \<Rightarrow> decimal" where
  \<comment> \<open>\<^verbatim>\<open>Decimal._fix\<close>: round to \<^const>\<open>prec\<close> significant digits, \<^verbatim>\<open>ROUND_HALF_EVEN\<close>.
      The exponent limits \<^verbatim>\<open>Emin\<close>, \<^verbatim>\<open>Emax\<close> (\<open>\<plusminus>999999\<close>) of the context are not modelled.\<close>
  "dec_fix d =
     (let n = length (digits_of (d_int d))
      in if d_int d = 0 \<or> n \<le> prec then d
         else (let k = n - prec;
                   q = d_int d div 10 ^ k;
                   r = d_int d mod 10 ^ k;
                   q' = (if 10 ^ k < 2 * r \<or> (2 * r = 10 ^ k \<and> odd q) then q + 1 else q)
               in if prec < length (digits_of q')
                  then \<lparr>d_sign = d_sign d, d_int = q' div 10, d_exp = d_exp d + int k + 1\<rparr>
                  else \<lparr>d_sign = d_sign d, d_int = q', d_exp = d_exp d + int k\<rparr>))"

definition rescale :: "decimal \<Rightarrow> int \<Rightarrow> decimal" where
  \<comment> \<open>\<^verbatim>\<open>Decimal._rescale(exp, rounding)\<close> to an exponent not above the number's own:
      the coefficient is padded with zeros\<close>
  "rescale d e = \<lparr>d_sign = d_sign d, d_int = d_int d * 10 ^ nat (d_exp d - e), d_exp = e\<rparr>"

definition signed_int :: "decimal \<Rightarrow> int" where
  "signed_int d = (if d_sign d then - int (d_int d) else int (d_int d))"

definition dec_add :: "decimal \<Rightarrow> decimal \<Rightarrow> decimal" where
  \<comment> \<open>\<^verbatim>\<open>Decimal.__add__\<close> on finite numbers, rounding other than \<^verbatim>\<open>ROUND_FLOOR\<close>\<close>
  "dec_add a b =
     (let exp = min (d_exp a) (d_exp b)
      in if d_int a = 0 \<and> d_int b = 0
         then dec_fix \<lparr>d_sign = (d_sign a \<and> d_sign b), d_int = 0, d_exp = exp\<rparr>
         else if d_int a = 0
         then dec_fix (rescale b (max exp (d_exp b - int prec - 1)))
         else if d_int b = 0
         then dec_fix (rescale a (max exp (d_exp a - int prec - 1)))
         else (let s = signed_int (rescale a exp) + signed_int (rescale b exp)
               in dec_fix \<lparr>d_sign = (s < 0), d_int = nat \<bar>s\<bar>, d_exp = exp\<rparr>))"

definition dec_neg :: "decimal \<Rightarrow> decimal" where
  \<comment> \<open>\<^verbatim>\<open>Decimal.__neg__\<close>: the negation of zero is the positive zero\<close>
  "dec_neg d = dec_fix (d\<lparr>d_sign := (d_int d \<noteq> 0 \<and> \<not> d_sign d)\<rparr>)"

definition dec_ne :: "decimal \<Rightarrow> decimal \<Rightarrow> bool" where
  \<comment> \<open>\<^verbatim>\<open>a != b\<close>: the coefficients are padded to the smaller exponent and compared; no
      context, no rounding\<close>
  "dec_ne a b =
     (let exp = min (d_exp a) (d_exp b)
      in signed_int (rescale a exp) \<noteq> signed_int (rescale b exp))"

definition dec_lt0 :: "decimal \<Rightarrow> bool" where
  \<comment> \<open>\<^verbatim>\<open>d < 0\<close>\<close>
  "dec_lt0 d = (d_sign d \<and> d_int d \<noteq> 0)"

definition int_str :: "int \<Rightarrow> string" where
  \<comment> \<open>\<^verbatim>\<open>"%+d" % i\<close>\<close>
  "int_str i = (if i < 0 then CHR ''-'' else CHR ''+'') # digits_of (nat \<bar>i\<bar>)"

definition dec_str :: "decimal \<Rightarrow> string" where
  \<comment> \<open>\<^verbatim>\<open>Decimal.__str__\<close>: plain notation when the exponent is at most \<open>0\<close> and the number has
      fewer than six leading fraction zeros, scientific notation otherwise\<close>
  "dec_str d =
     (let sign = (if d_sign d then ''-'' else '''');
          ds = digits_of (d_int d);
          leftdigits = d_exp d + int (length ds);
          dotplace = (if d_exp d \<le> 0 \<and> - 6 < leftdigits then leftdigits else 1);
          intpart = (if dotplace \<le> 0 then ''0''
                     else if int (length ds) \<le> dotplace
                     then ds @ replicate (nat (dotplace - int (length ds))) CHR ''0''
                     else take (nat dotplace) ds);
          fracpart = (if dotplace \<le> 0 then CHR ''.'' # replicate (nat (- dotplace)) CHR ''0'' @ ds
                      else if int (length ds) \<le> dotplace then ''''
                      else CHR ''.'' # drop (nat dotplace) ds);
          exp = (if leftdigits = dotplace then '''' else CHR ''E'' # int_str (leftdigits - dotplace))
      in sign @ intpart @ fracpart @ exp)"

lemmas dec_eval = dec_add_def dec_fix_def rescale_def signed_int_def dec_neg_def dec_ne_def
  dec_str_def int_str_def digits_of.simps digit_char_def prec_def Let_def

section \<open>Tables\<close>

text \<open>
  A \<^verbatim>\<open>DataFrame\<close> of the extraction stage is a list of column names and a list of rows,
  each row with one cell per column; a cell is a string or the missing value \<^verbatim>\<open>NaN\<close>.
  The tables of the pipeline have a header row, so their column names are strings.  A
  table without header row has the integer labels \<^verbatim>\<open>0\<close>, \<^verbatim>\<open>1\<close>, \<open>\<dots>\<close> of \<^verbatim>\<open>pandas\<close> instead; the
  header check, the one function that looks into a label, is modelled on labels of
  either kind (\<open>label\<close> below).  The row index plays no part: every selection below is by
  position or by a mask over the same rows.
\<close>

datatype cell = NaN | Str string

record frame =
  columns :: "string list"
  rows :: "cell list list"

definition astype_str :: "cell \<Rightarrow> string" where
  \<comment> \<open>\<^verbatim>\<open>.astype(str)\<close>, and \<^verbatim>\<open>str(x)\<close>, of one cell: a missing value becomes the text
      \<^verbatim>\<open>nan\<close>, which the replacement in \<^verbatim>\<open>clean_columns\<close> looks for\<close>
  "astype_str c = (case c of NaN \<Rightarrow> ''nan'' | Str s \<Rightarrow> s)"

definition notna :: "cell \<Rightarrow> bool" where
  "notna c = (c \<noteq> NaN)"

definition iloc_col :: "frame \<Rightarrow> nat \<Rightarrow> cell list" where
  \<comment> \<open>\<^verbatim>\<open>df.iloc[:, i]\<close> for \<open>i\<close> within the columns\<close>
  "iloc_col df i = map (\<lambda>r. r ! i) (rows df)"

definition select :: "bool list \<Rightarrow> 'a list \<Rightarrow> 'a list" where
  \<comment> \<open>boolean-mask indexing \<^verbatim>\<open>xs[mask]\<close>, mask and data of one length\<close>
  "select flags xs = map snd (filter fst (zip flags xs))"

fun index_of :: "'a \<Rightarrow> 'a list \<Rightarrow> nat option" where
  "index_of x [] = None"
| "index_of x (y # ys) = (if x = y then Some 0 else map_option Suc (index_of x ys))"

subsection \<open>clean\_columns\<close>

definition replace_nan :: "string \<Rightarrow> string" where
  \<comment> \<open>\<^verbatim>\<open>Series.replace('nan', '', regex=False)\<close> on one value: a value equal to \<^verbatim>\<open>'nan'\<close>
      is replaced, any other value is kept\<close>
  "replace_nan s = (if s = ''nan'' then '''' else s)"

definition setitem :: "frame \<Rightarrow> string \<Rightarrow> cell list \<Rightarrow> frame" where
  \<comment> \<open>\<^verbatim>\<open>new_df[col_name] = col\<close>: a column of that name is overwritten in place, a new
      name is appended\<close>
  "setitem df col_name col =
     (case index_of col_name (columns df) of
        None \<Rightarrow> \<lparr>columns = columns df @ [col_name],
                  rows = map2 (\<lambda>r c. r @ [c]) (rows df) col\<rparr>
      | Some k \<Rightarrow> \<lparr>columns = columns df,
                    rows = map2 (\<lambda>r c. r[k := c]) (rows df) col\<rparr>)"

function look_ahead :: "frame \<Rightarrow> string \<Rightarrow> nat \<Rightarrow> string list \<Rightarrow> nat \<times> string list" where
  \<comment> \<open>the \<^verbatim>\<open>while\<close> loop of \<^verbatim>\<open>clean_columns\<close>: returns the final \<open>j\<close> and the combined column\<close>
  "look_ahead df col_name j combined_col =
     (if j < length (columns df) \<and> columns df ! j = col_name
      then look_ahead df col_name (j + 1)
             (map2 (\<lambda>s c. s @ '' '' @ astype_str c) combined_col (iloc_col df j))
      else (j, combined_col))"
  by pat_completeness auto
termination
  by (relation "measure (\<lambda>(df, n, j, c). length (columns df) - j)") auto

declare look_ahead.simps [simp del]

lemma look_ahead_ge: "j \<le> fst (look_ahead df n j c)"
proof (induction df n j c rule: look_ahead.induct)
  case (1 df col_name j combined_col)
  show ?case
  proof (cases "j < length (columns df) \<and> columns df ! j = col_name")
    case True
    have "look_ahead df col_name j combined_col =
        look_ahead df col_name (j + 1)
          (map2 (\<lambda>s c. s @ '' '' @ astype_str c) combined_col (iloc_col df j))"
      using True by (subst look_ahead.simps) simp
    moreover have "j + 1 \<le> fst (look_ahead df col_name (j + 1)
          (map2 (\<lambda>s c. s @ '' '' @ astype_str c) combined_col (iloc_col df j)))"
      using "1.IH"[OF True] .
    ultimately show ?thesis by simp
  next
    case False
    have "look_ahead df col_name j combined_col = (j, combined_col)"
      by (subst look_ahead.simps) (use False in auto)
    then show ?thesis by simp
  qed
qed

function clean_columns_loop :: "frame \<Rightarrow> nat \<Rightarrow> frame \<Rightarrow> frame" where
  \<comment> \<open>the \<^verbatim>\<open>for i in col_iter\<close> loop; the iterator is advanced past the merged columns,
      so the next \<open>i\<close> is the final \<open>j\<close>\<close>
  "clean_columns_loop df i new_df =
     (if i < length (columns df)
      then (let col_name = columns df ! i;
                combined_col = map astype_str (iloc_col df i);
                la = look_ahead df col_name (i + 1) combined_col
            in clean_columns_loop df (fst la)
                 (setitem new_df col_name (map (\<lambda>s. Str (replace_nan s)) (snd la))))
      else new_df)"
  by pat_completeness auto
termination
proof (relation "measure (\<lambda>(df, i, n). length (columns df) - i)", goal_cases)
  case 1
  show ?case by simp
next
  case (2 df i new_df col_name combined_col la)
  have "i + 1 \<le> fst (look_ahead df col_name (i + 1) combined_col)" by (rule look_ahead_ge)
  with 2 show ?case by simp
qed

declare clean_columns_loop.simps [simp del]

definition clean_columns :: "frame \<Rightarrow> frame" where
  "clean_columns df =
     clean_columns_loop df 0 \<lparr>columns = [], rows = replicate (length (rows df)) []\<rparr>"

subsection \<open>validate\_transaction\_table\_columns\<close>

definition upper_char :: "char \<Rightarrow> char" where
  "upper_char c =
     (case map_of (zip ''abcdefghijklmnopqrstuvwxyz'' ''ABCDEFGHIJKLMNOPQRSTUVWXYZ'') c of
        Some u \<Rightarrow> u | None \<Rightarrow> c)"

definition upper :: "string \<Rightarrow> string" where
  \<comment> \<open>\<^verbatim>\<open>str.upper()\<close> on ASCII text.  Outside ASCII \<^verbatim>\<open>str.upper\<close> changes further letters, a
      few of them into ASCII capitals (the dotless i, the long s, the sharp s); text with
      such letters is outside the model.\<close>
  "upper s = map upper_char s"

datatype label =
    Name string     \<comment> \<open>the text of a header cell\<close>
  | Position int    \<comment> \<open>the integer label of a column of a table without header row\<close>

fun str_contains :: "string \<Rightarrow> string \<Rightarrow> bool" where
  \<comment> \<open>\<^verbatim>\<open>keyword in s\<close>\<close>
  "str_contains [] keyword = (keyword = [])"
| "str_contains (c # cs) keyword = (prefix keyword (c # cs) \<or> str_contains cs keyword)"

definition expected_columns :: nat where
  "expected_columns = 4"

definition expected_keywords :: "string list list" where
  "expected_keywords = [[''TRANS. DATE''], [''POSTING DATE''], [''DESCRIPTION''], [''AMOUNT'', ''BAHT'']]"

fun check_headers :: "(label \<times> string list) list \<Rightarrow> error + bool" where
  \<comment> \<open>the loop over \<^verbatim>\<open>zip(df.columns, expected_keywords)\<close>, returning at the first mismatch;
      \<^verbatim>\<open>col_name.upper()\<close> raises on a label that is an integer\<close>
  "check_headers [] = Inr True"
| "check_headers ((col_name, keywords) # rest) =
     (case col_name of
        Position k \<Rightarrow> Inl AttributeError
      | Name s \<Rightarrow>
          (if \<not> list_all (\<lambda>keyword. str_contains (upper s) keyword) keywords then Inr False
           else check_headers rest))"

definition validate_transaction_table_columns :: "label list \<Rightarrow> error + bool" where
  \<comment> \<open>the function reads \<^verbatim>\<open>df.columns\<close> only, which is its argument here; the parameter
      \<^verbatim>\<open>table_index\<close> is only printed\<close>
  "validate_transaction_table_columns df_columns =
     (if length df_columns \<noteq> expected_columns then Inr False
      else check_headers (zip df_columns expected_keywords))"

definition is_transaction_table :: "frame \<Rightarrow> bool" where
  \<comment> \<open>\<^verbatim>\<open>validate_transaction_table_columns(df, i)\<close> on a table with a header row, as the loop
      of \<^verbatim>\<open>process_pdf\<close> tests it; on the names of such a table the check returns\<close>
  "is_transaction_table df =
     (validate_transaction_table_columns (map Name (columns df)) = Inr True)"

subsection \<open>clean\_transaction\_data\<close>

definition dropna :: "frame \<Rightarrow> frame" where
  \<comment> \<open>\<^verbatim>\<open>df[df.notna().all(axis=1)]\<close>\<close>
  "dropna df = df\<lparr>rows := select (map (list_all notna) (rows df)) (rows df)\<rparr>"

definition drop_label :: "frame \<Rightarrow> string \<Rightarrow> frame" where
  \<comment> \<open>\<^verbatim>\<open>df.drop([label], axis=1)\<close>: every column carrying the label goes\<close>
  "drop_label df label =
     (let keep = map (\<lambda>c. c \<noteq> label) (columns df)
      in \<lparr>columns = select keep (columns df), rows = map (select keep) (rows df)\<rparr>)"

definition is_valid_date :: "(string \<Rightarrow> error + 'd option) \<Rightarrow> cell \<Rightarrow> bool" where
  \<comment> \<open>\<^verbatim>\<open>pd.to_datetime(x, format='%d/%m/%y', errors='coerce') is not pd.NaT\<close>.  The parameter
      \<open>to_datetime\<close> is \<^verbatim>\<open>pd.to_datetime(s, format='%d/%m/%y')\<close> on text: a date, \<^verbatim>\<open>NaT\<close>
      (\<^term>\<open>None\<close>) for text that stands for a missing value, or its \<^verbatim>\<open>ValueError\<close>, which
      \<^verbatim>\<open>errors='coerce'\<close> turns into \<^verbatim>\<open>NaT\<close>.  A missing value gives \<^verbatim>\<open>NaT\<close>.\<close>
  "is_valid_date to_datetime c =
     (case c of NaN \<Rightarrow> False
      | Str s \<Rightarrow> (case to_datetime s of Inr (Some d) \<Rightarrow> True | _ \<Rightarrow> False))"

definition is_valid_amount :: "cell \<Rightarrow> bool" where
  "is_valid_amount c = (case clean_amount (astype_str c) of Inl e \<Rightarrow> False | Inr d \<Rightarrow> True)"

definition date_amount_filter :: "(string \<Rightarrow> error + 'd option) \<Rightarrow> frame \<Rightarrow> error + frame" where
  \<comment> \<open>\<^verbatim>\<open>clean_transaction_data\<close> after its first statement: the second column is dropped by
      its label, and the rows whose date and amount are both valid are kept\<close>
  "date_amount_filter to_datetime df =
     (if length (columns df) < 2 then Inl IndexError
      else (let df2 = drop_label df (columns df ! 1)
            in if columns df2 = [] then Inl IndexError
               else (let date_mask = map (is_valid_date to_datetime) (iloc_col df2 0);
                         amount_mask = map is_valid_amount (iloc_col df2 (length (columns df2) - 1))
                     in Inr (df2\<lparr>rows := select (map2 (\<and>) date_mask amount_mask) (rows df2)\<rparr>))))"

definition clean_transaction_data :: "(string \<Rightarrow> error + 'd option) \<Rightarrow> frame \<Rightarrow> error + frame" where
  "clean_transaction_data to_datetime df = date_amount_filter to_datetime (dropna df)"

subsection \<open>The typed table\<close>

record 'd txn =
  t_date :: "'d option"     \<comment> \<open>a \<^verbatim>\<open>Timestamp\<close>, or \<^verbatim>\<open>NaT\<close>\<close>
  t_mid :: "cell list"      \<comment> \<open>the cells between the first and the last column, unchanged\<close>
  t_amount :: decimal

record 'd ledger =
  l_columns :: "string list"
  l_rows :: "'d txn list"

fun mapM :: "('a \<Rightarrow> error + 'b) \<Rightarrow> 'a list \<Rightarrow> error + 'b list" where
  \<comment> \<open>\<^verbatim>\<open>Series.apply\<close> with a function that may raise: the first exception ends it\<close>
  "mapM f [] = Inr []"
| "mapM f (x # xs) =
     (case f x of Inl e \<Rightarrow> Inl e
      | Inr y \<Rightarrow> (case mapM f xs of Inl e \<Rightarrow> Inl e | Inr ys \<Rightarrow> Inr (y # ys)))"

definition to_datetime_raise :: "(string \<Rightarrow> error + 'd option) \<Rightarrow> cell \<Rightarrow> error + 'd option" where
  \<comment> \<open>\<^verbatim>\<open>pd.to_datetime(x, format='%d/%m/%y')\<close> on a cell, which raises on text that does not
      parse\<close>
  "to_datetime_raise to_datetime c = (case c of NaN \<Rightarrow> Inr None | Str s \<Rightarrow> to_datetime s)"

definition clean_amount_cell :: "cell \<Rightarrow> error + decimal" where
  \<comment> \<open>\<^verbatim>\<open>clean_amount(x)\<close> on a cell: a missing value is a float and has no \<^verbatim>\<open>startswith\<close>\<close>
  "clean_amount_cell c = (case c of NaN \<Rightarrow> Inl AttributeError | Str s \<Rightarrow> clean_amount s)"

definition convert_data_types :: "(string \<Rightarrow> error + 'd option) \<Rightarrow> frame \<Rightarrow> error + 'd ledger" where
  "convert_data_types to_datetime df =
     (if columns df = [] then Inl IndexError
      else case mapM (to_datetime_raise to_datetime) (iloc_col df 0) of
        Inl e \<Rightarrow> Inl e
      | Inr dates \<Rightarrow>
          (if length (columns df) = 1
           then (if rows df = [] then Inr \<lparr>l_columns = columns df, l_rows = []\<rparr>
                 else Inl AttributeError)
           else case mapM clean_amount_cell (iloc_col df (length (columns df) - 1)) of
             Inl e \<Rightarrow> Inl e
           | Inr amounts \<Rightarrow>
               Inr \<lparr>l_columns = columns df,
                    l_rows = map (\<lambda>(r, d, a). \<lparr>t_date = d, t_mid = butlast (tl r), t_amount = a\<rparr>)
                               (zip (rows df) (zip dates amounts))\<rparr>))"

subsection \<open>validate\_transaction\_totals\<close>

definition series_sum :: "decimal list \<Rightarrow> decimal" where
  \<comment> \<open>\<^verbatim>\<open>Series.sum()\<close> of a column of \<^verbatim>\<open>Decimal\<close> objects: the values are added left to
      right; the sum of no values is the integer \<open>0\<close>, which the addition that follows
      converts to \<^verbatim>\<open>Decimal(0)\<close>\<close>
  "series_sum xs =
     (case xs of [] \<Rightarrow> \<lparr>d_sign = False, d_int = 0, d_exp = 0\<rparr> | x # xs' \<Rightarrow> foldl dec_add x xs')"

definition amounts :: "'d ledger \<Rightarrow> decimal list" where
  \<comment> \<open>\<^verbatim>\<open>df.iloc[:, -1]\<close> of the typed table\<close>
  "amounts df = map t_amount (l_rows df)"

definition validate_transaction_totals :: "'d ledger \<Rightarrow> decimal \<Rightarrow> decimal \<Rightarrow> error + unit" where
  "validate_transaction_totals df starting_balance ending_balance =
     (let total_amount = series_sum (amounts df)
      in if dec_ne (dec_add starting_balance total_amount) ending_balance
         then Inl ValueError else Inr ())"

subsection \<open>filter\_payment\_transactions, flip\_amount\_sign\<close>

definition startswith_payment :: "cell \<Rightarrow> bool" where
  \<comment> \<open>\<^verbatim>\<open>.str.startswith('Payment')\<close>; on a missing value the accessor gives \<^verbatim>\<open>NaN\<close>, which
      the conjunction that follows reads as false\<close>
  "startswith_payment c = (case c of NaN \<Rightarrow> False | Str s \<Rightarrow> prefix ''Payment'' s)"

definition payment_mask :: "'d txn \<Rightarrow> bool" where
  \<comment> \<open>\<^verbatim>\<open>(df.iloc[:, -1] < 0) & (df.iloc[:, 1].str.startswith('Payment'))\<close> on one row of a
      table of three columns or more\<close>
  "payment_mask r =
     (dec_lt0 (t_amount r) \<and> (case t_mid r of [] \<Rightarrow> False | c # cs \<Rightarrow> startswith_payment c))"

definition filter_payment_transactions :: "'d ledger \<Rightarrow> error + 'd ledger" where
  \<comment> \<open>with fewer than two columns \<^verbatim>\<open>iloc[:, 1]\<close> is out of bounds; with two columns it is the
      column of \<^verbatim>\<open>Decimal\<close> objects, on which the \<^verbatim>\<open>.str\<close> accessor raises unless it is empty\<close>
  "filter_payment_transactions df =
     (if length (l_columns df) < 2 then Inl IndexError
      else if length (l_columns df) = 2
      then (if l_rows df = [] then Inr df else Inl AttributeError)
      else Inr (df\<lparr>l_rows := select (map (\<lambda>r. \<not> payment_mask r) (l_rows df)) (l_rows df)\<rparr>))"

definition flip_amount_sign :: "'d ledger \<Rightarrow> 'd ledger" where
  "flip_amount_sign df = df\<lparr>l_rows := map (\<lambda>r. r\<lparr>t_amount := dec_neg (t_amount r)\<rparr>) (l_rows df)\<rparr>"

subsection \<open>save\_to\_csv\<close>

datatype encoding = UTF8_SIG   \<comment> \<open>\<^verbatim>\<open>'utf-8-sig'\<close>: UTF-8 behind a byte-order mark\<close>

record csv_file =
  f_encoding :: encoding
  f_header :: "string list"
  f_records :: "string list list"

definition csv_cell :: "cell \<Rightarrow> string" where
  \<comment> \<open>a missing value is written as the empty field (\<^verbatim>\<open>na_rep=''\<close>)\<close>
  "csv_cell c = (case c of NaN \<Rightarrow> '''' | Str s \<Rightarrow> s)"

definition csv_record :: "('d \<Rightarrow> string) \<Rightarrow> 'd txn \<Rightarrow> string list" where
  "csv_record date_str r =
     (case t_date r of None \<Rightarrow> '''' | Some d \<Rightarrow> date_str d) # map csv_cell (t_mid r) @ [dec_str (t_amount r)]"

definition save_to_csv :: "('d \<Rightarrow> string) \<Rightarrow> 'd ledger \<Rightarrow> csv_file" where
  \<comment> \<open>\<^verbatim>\<open>df.to_csv(csv_path, index=False, encoding='utf-8-sig')\<close>: the header and one record
      per row, each value by its \<^verbatim>\<open>str\<close>.  The file name, and the quoting and line ends of
      the CSV writer, are not modelled.\<close>
  "save_to_csv date_str df =
     \<lparr>f_encoding = UTF8_SIG, f_header = l_columns df, f_records = map (csv_record date_str) (l_rows df)\<rparr>"

subsection \<open>process\_pdf\<close>

definition pd_concat :: "frame list \<Rightarrow> frame" where
  \<comment> \<open>\<^verbatim>\<open>pd.concat(dfs)\<close> of frames with unique column names: the columns are the union of
      the names in order of first appearance, the rows follow one another, and a row has
      \<^verbatim>\<open>NaN\<close> in the columns its frame lacks\<close>
  "pd_concat dfs =
     (let cols = foldl (\<lambda>acc df. acc @ filter (\<lambda>c. c \<notin> set acc) (columns df)) [] dfs
      in \<lparr>columns = cols,
          rows = concat (map (\<lambda>df. map (\<lambda>r. map (\<lambda>c. case index_of c (columns df) of
                                                       None \<Rightarrow> NaN | Some k \<Rightarrow> r ! k) cols)
                                        (rows df)) dfs)\<rparr>)"

definition iloc_last :: "frame \<Rightarrow> nat \<Rightarrow> error + cell" where
  \<comment> \<open>\<^verbatim>\<open>df.iloc[i, -1]\<close>\<close>
  "iloc_last df i =
     (if i < length (rows df) \<and> columns df \<noteq> [] then Inr (last (rows df ! i)) else Inl IndexError)"

datatype outcome =
    NoTables               \<comment> \<open>\<^verbatim>\<open>doc.tables\<close> is empty\<close>
  | NoTransactionTables    \<comment> \<open>no table passed the header check\<close>
  | Failed error           \<comment> \<open>an exception reached the handler of \<^verbatim>\<open>process_pdf\<close>\<close>
  | Saved csv_file         \<comment> \<open>\<^verbatim>\<open>save_to_csv\<close> wrote the file\<close>

definition transactions :: "(string \<Rightarrow> error + 'd option) \<Rightarrow> frame \<Rightarrow> error + 'd ledger" where
  \<comment> \<open>the body of \<^verbatim>\<open>process_pdf\<close> from the two balances to the sign flip\<close>
  "transactions to_datetime combined_transaction_df =
     (case iloc_last combined_transaction_df 0 of Inl e \<Rightarrow> Inl e | Inr c0 \<Rightarrow>
      case clean_amount_cell c0 of Inl e \<Rightarrow> Inl e | Inr starting_balance \<Rightarrow>
      case iloc_last combined_transaction_df (length (rows combined_transaction_df) - 1) of
        Inl e \<Rightarrow> Inl e | Inr c1 \<Rightarrow>
      case clean_amount_cell c1 of Inl e \<Rightarrow> Inl e | Inr ending_balance \<Rightarrow>
      case clean_transaction_data to_datetime combined_transaction_df of Inl e \<Rightarrow> Inl e | Inr df1 \<Rightarrow>
      case convert_data_types to_datetime df1 of Inl e \<Rightarrow> Inl e | Inr df2 \<Rightarrow>
      case validate_transaction_totals df2 starting_balance ending_balance of
        Inl e \<Rightarrow> Inl e | Inr u \<Rightarrow>
      case filter_payment_transactions df2 of Inl e \<Rightarrow> Inl e | Inr df3 \<Rightarrow>
      Inr (flip_amount_sign df3))"

definition process_pdf :: "(string \<Rightarrow> error + 'd option) \<Rightarrow> ('d \<Rightarrow> string) \<Rightarrow> frame list \<Rightarrow> outcome" where
  \<comment> \<open>\<open>tables\<close> are the frames \<^verbatim>\<open>table.export_to_dataframe()\<close> yields for \<^verbatim>\<open>doc.tables\<close>, each
      with a header row\<close>
  "process_pdf to_datetime date_str tables =
     (if tables = [] then NoTables
      else (let transaction_dfs = filter is_transaction_table (map clean_columns tables)
            in if transaction_dfs = [] then NoTransactionTables
               else (case transactions to_datetime (pd_concat transaction_dfs) of
                       Inl e \<Rightarrow> Failed e
                     | Inr df \<Rightarrow> Saved (save_to_csv date_str df))))"

subsection \<open>A date parser for the examples\<close>

definition strptime_dmy :: "string \<Rightarrow> error + (nat \<times> nat \<times> nat) option" where
  \<comment> \<open>an instance of the parameter \<open>to_datetime\<close>: two digits each for day, month and year;
      the empty text stands for a missing value\<close>
  "strptime_dmy s =
     (case s of
        [] \<Rightarrow> Inr None
      | [d1, d2, s1, m1, m2, s2, y1, y2] \<Rightarrow>
          (let d = digits_val [d1, d2]; m = digits_val [m1, m2]; y = digits_val [y1, y2]
           in if list_all is_digit [d1, d2, m1, m2, y1, y2] \<and> s1 = CHR ''/'' \<and> s2 = CHR ''/'' \<and>
                 1 \<le> d \<and> d \<le> 31 \<and> 1 \<le> m \<and> m \<le> 12
              then Inr (Some (d, m, if y \<le> 68 then 2000 + y else 1900 + y)) else Inl ValueError)
      | _ \<Rightarrow> Inl ValueError)"

definition iso_date :: "nat \<times> nat \<times> nat \<Rightarrow> string" where
  \<comment> \<open>an instance of the parameter \<open>date_str\<close>\<close>
  "iso_date x =
     (case x of (d, m, y) \<Rightarrow>
        digits_of y @ ''-'' @ (if m < 10 then ''0'' else '''') @ digits_of m @ ''-'' @
        (if d < 10 then ''0'' else '''') @ digits_of d)"

definition sample_table :: frame where
  "sample_table =
     \<lparr>columns = [''TRANS. DATE'', ''POSTING DATE'', ''DESCRIPTION'', ''AMOUNT (BAHT)''],
      rows = [[Str '''', Str '''', Str ''Starting Balance'', Str ''1,000.00''],
              [Str ''02/01/23'', Str ''02/01/23'', Str ''Purchase'', Str ''2,000.00''],
              [Str ''03/01/23'', Str ''03/01/23'', Str ''Payment'', Str ''-1,000.00''],
              [Str ''04/01/23'', Str ''04/01/23'', Str ''Purchase'', Str ''3,000.00''],
              [Str '''', Str '''', Str ''Ending Balance'', Str ''5,000.00'']]\<rparr>"

section \<open>The header check\<close>





















section \<open>Row selection\<close>

lemma select_map: "select (map P xs) xs = filter P xs"
  by (induction xs) (simp_all add: select_def)

lemma select_map2_conj:
  "select (map2 (\<and>) (map P xs) (map Q xs)) xs = filter (\<lambda>x. P x \<and> Q x) xs"
  by (induction xs) (simp_all add: select_def)


section \<open>The payment filter\<close>

lemma dec_lt0_iff: "dec_lt0 d \<longleftrightarrow> dec_val d < 0"
proof -
  let ?p = "(if 0 \<le> d_exp d then 10 ^ nat (d_exp d) else 1 / 10 ^ nat (- d_exp d)) :: rat"
  have p: "0 < ?p" by simp
  have v: "dec_val d = (if d_sign d then - 1 else 1) * of_nat (d_int d) * ?p"
    by (simp add: dec_val_def)
  show ?thesis
  proof (cases "d_sign d \<and> d_int d \<noteq> 0")
    case True
    then have "(0::rat) < of_nat (d_int d)" by simp
    then have "0 < of_nat (d_int d) * ?p" using p by (rule mult_pos_pos)
    then have "dec_val d < 0" using True unfolding v by simp
    with True show ?thesis by (simp add: dec_lt0_def)
  next
    case False
    have "(0::rat) \<le> of_nat (d_int d) * ?p" using p by simp
    then have "0 \<le> dec_val d" using False unfolding v by auto
    with False show ?thesis by (auto simp: dec_lt0_def)
  qed
qed

lemma payment_mask_iff:
  "payment_mask r \<longleftrightarrow>
     dec_val (t_amount r) < 0 \<and> (\<exists>s cs. t_mid r = Str s # cs \<and> prefix ''Payment'' s)"
  by (auto simp: payment_mask_def dec_lt0_iff startswith_payment_def split: list.splits cell.splits)

text \<open>
  Claim C7.  On a table of three columns or more, whose second column is the description,
  \<^const>\<open>filter_payment_transactions\<close> succeeds and keeps, in their order and unchanged,
  exactly the rows that are not both of a negative amount and of a description that
  starts with \<^verbatim>\<open>Payment\<close>, compared character by character.
\<close>

theorem filter_payment_transactions_removes:
  assumes "3 \<le> length (l_columns df)"
  shows "filter_payment_transactions df =
     Inr (df\<lparr>l_rows := filter (\<lambda>r. \<not> (dec_val (t_amount r) < 0 \<and>
                 (\<exists>s cs. t_mid r = Str s # cs \<and> prefix ''Payment'' s))) (l_rows df)\<rparr>)"
  using assms by (simp add: filter_payment_transactions_def select_map payment_mask_iff)

section \<open>Merged columns\<close>

subsection \<open>Cells of a merged table\<close>








text \<open>
  A table of four transactions: a purchase, a payment, a negative amount whose description
  starts with a lower-case \<^verbatim>\<open>payment\<close>, and a positive amount whose description starts
  with \<^verbatim>\<open>Payment\<close>.  Only the second is removed.
\<close>

definition ledger3 :: "(nat \<times> nat \<times> nat) ledger" where
  "ledger3 =
     \<lparr>l_columns = [''TRANS. DATE'', ''DESCRIPTION'', ''AMOUNT BAHT''],
      l_rows =
        [\<lparr>t_date = Some (1, 1, 2023), t_mid = [Str ''Purchase''],
          t_amount = \<lparr>d_sign = False, d_int = 10000, d_exp = - 2\<rparr>\<rparr>,
         \<lparr>t_date = Some (2, 1, 2023), t_mid = [Str ''Payment''],
          t_amount = \<lparr>d_sign = True, d_int = 20000, d_exp = - 2\<rparr>\<rparr>,
         \<lparr>t_date = Some (3, 1, 2023), t_mid = [Str ''payment reversal''],
          t_amount = \<lparr>d_sign = True, d_int = 30000, d_exp = - 2\<rparr>\<rparr>,
         \<lparr>t_date = Some (4, 1, 2023), t_mid = [Str ''Payment fee''],
          t_amount = \<lparr>d_sign = False, d_int = 500, d_exp = - 2\<rparr>\<rparr>]\<rparr>"

text \<open>The theorem of C7 on that table.\<close>

theorem filter_payment_transactions_removes_witness:
  "3 \<le> length (l_columns ledger3) \<and>
   filter_payment_transactions ledger3 =
     Inr (ledger3\<lparr>l_rows := [l_rows ledger3 ! 0, l_rows ledger3 ! 2, l_rows ledger3 ! 3]\<rparr>)"
proof -
  have 1: "3 \<le> length (l_columns ledger3)" by (simp add: ledger3_def)
  show ?thesis
    using filter_payment_transactions_removes[OF 1]
    by (simp add: ledger3_def dec_val_def)
qed

text \<open>
  Claim C4 at a table of two columns named \<^verbatim>\<open>DESCRIPTION\<close> and one row, whose cells are a
  missing value and \<^verbatim>\<open>Coffee\<close>.  The merged cell is \<^verbatim>\<open>nan Coffee\<close>: the text of the
  missing value stays in it, since the replacement looks at whole cells only.
\<close>

theorem clean_columns_keeps_nan_text:
  "clean_columns \<lparr>columns = [''DESCRIPTION'', ''DESCRIPTION''], rows = [[NaN, Str ''Coffee'']]\<rparr> =
     \<lparr>columns = [''DESCRIPTION''], rows = [[Str ''nan Coffee'']]\<rparr>"
  by (simp add: clean_columns_def clean_columns_loop.simps look_ahead.simps Let_def
      iloc_col_def astype_str_def setitem_def replace_nan_def)

section \<open>The sanitizer\<close>

lemma select_keep4:
  assumes "length r = 4"
  shows "select [True, False, True, True] r = [r ! 0, r ! 2, r ! 3]"
proof -
  obtain a b c d where "r = [a, b, c, d]"
    using assms by (auto simp: length_Suc_conv numeral_eq_Suc)
  then show ?thesis by (simp add: select_def)
qed

text \<open>
  On a table of four columns with pairwise distinct names (every table \<^const>\<open>clean_columns\<close>
  returns has such names), \<^const>\<open>clean_transaction_data\<close> returns the first, third and
  fourth column of exactly those rows, in their order, that have no missing cell, whose
  first cell is text the date parser accepts, and whose last cell is text
  \<^const>\<open>clean_amount\<close> accepts; the cells are unchanged.
\<close>

lemma clean_transaction_data_rows:
  assumes "length (columns df) = 4" "distinct (columns df)" "\<forall>r\<in>set (rows df). length r = 4"
  shows "clean_transaction_data to_datetime df =
     Inr \<lparr>columns = [columns df ! 0, columns df ! 2, columns df ! 3],
          rows = map (\<lambda>r. [r ! 0, r ! 2, r ! 3])
                   (filter (\<lambda>r. list_all (\<lambda>c. c \<noteq> NaN) r \<and>
                                (\<exists>s d. r ! 0 = Str s \<and> to_datetime s = Inr (Some d)) \<and>
                                (\<exists>s a. r ! 3 = Str s \<and> clean_amount s = Inr a))
                           (rows df))\<rparr>"
proof -
  obtain c0 c1 c2 c3 where c: "columns df = [c0, c1, c2, c3]"
    using assms(1) by (auto simp: length_Suc_conv numeral_eq_Suc)
  define rows1 where "rows1 = filter (list_all notna) (rows df)"
  define sel where "sel = (\<lambda>r::cell list. [r ! 0, r ! 2, r ! 3])"
  have d1: "dropna df = \<lparr>columns = [c0, c1, c2, c3], rows = rows1\<rparr>"
    using c by (simp add: dropna_def select_map rows1_def)
  have keep: "map (\<lambda>x. x \<noteq> c1) [c0, c1, c2, c3] = [True, False, True, True]"
    using assms(2) c by auto
  have l1: "\<forall>r\<in>set rows1. length r = 4" using assms(3) by (simp add: rows1_def)
  then have m: "map (select [True, False, True, True]) rows1 = map sel rows1"
    by (simp add: select_keep4 sel_def)
  have d2: "drop_label \<lparr>columns = [c0, c1, c2, c3], rows = rows1\<rparr> c1 =
      \<lparr>columns = [c0, c2, c3], rows = map sel rows1\<rparr>"
  proof -
    have "drop_label \<lparr>columns = [c0, c1, c2, c3], rows = rows1\<rparr> c1 =
        \<lparr>columns = select [True, False, True, True] [c0, c1, c2, c3],
         rows = map (select [True, False, True, True]) rows1\<rparr>"
      unfolding drop_label_def Let_def by (simp only: frame.select_convs keep)
    also have "select [True, False, True, True] [c0, c1, c2, c3] = [c0, c2, c3]"
      by (simp add: select_def)
    finally show ?thesis by (simp only: m)
  qed
  let ?P = "\<lambda>r. is_valid_date to_datetime (r ! 0) \<and> is_valid_amount (r ! 3)"
  define k where "k = length [c0, c2, c3] - 1"
  have k2: "k = 2" by (simp add: k_def)
  have e: "date_amount_filter to_datetime \<lparr>columns = [c0, c1, c2, c3], rows = rows1\<rparr> =
      Inr \<lparr>columns = [c0, c2, c3],
           rows = select (map2 (\<and>) (map (\<lambda>r. is_valid_date to_datetime (r ! 0)) (map sel rows1))
                                   (map (\<lambda>r. is_valid_amount (r ! k)) (map sel rows1)))
                         (map sel rows1)\<rparr>"
    unfolding k_def by (simp add: date_amount_filter_def d2 Let_def iloc_col_def comp_def)
  have f: "select (map2 (\<and>) (map (\<lambda>r. is_valid_date to_datetime (r ! 0)) (map sel rows1))
                       (map (\<lambda>r. is_valid_amount (r ! k)) (map sel rows1))) (map sel rows1)
      = map sel (filter ?P rows1)"
  proof -
    have "select (map2 (\<and>) (map (\<lambda>r. is_valid_date to_datetime (r ! 0)) (map sel rows1))
                       (map (\<lambda>r. is_valid_amount (r ! k)) (map sel rows1))) (map sel rows1)
        = filter (\<lambda>r. is_valid_date to_datetime (r ! 0) \<and> is_valid_amount (r ! k)) (map sel rows1)"
      by (rule select_map2_conj)
    also have "\<dots> = map sel (filter ?P rows1)"
      by (simp add: filter_map comp_def sel_def k2)
    finally show ?thesis .
  qed
  have g: "filter ?P rows1 =
      filter (\<lambda>r. list_all (\<lambda>c. c \<noteq> NaN) r \<and>
                  (\<exists>s d. r ! 0 = Str s \<and> to_datetime s = Inr (Some d)) \<and>
                  (\<exists>s a. r ! 3 = Str s \<and> clean_amount s = Inr a)) (rows df)"
    unfolding rows1_def filter_filter
  proof (rule filter_cong[OF refl])
    fix r assume r: "r \<in> set (rows df)"
    then have len: "length r = 4" using assms(3) by simp
    show "(list_all notna r \<and> ?P r) =
      (list_all (\<lambda>c. c \<noteq> NaN) r \<and> (\<exists>s d. r ! 0 = Str s \<and> to_datetime s = Inr (Some d)) \<and>
       (\<exists>s a. r ! 3 = Str s \<and> clean_amount s = Inr a))"
    proof (cases "list_all notna r")
      case False
      then show ?thesis by (simp add: notna_def[abs_def])
    next
      case True
      then have "r ! 0 \<noteq> NaN" "r ! 3 \<noteq> NaN" using len by (simp_all add: list_all_length notna_def)
      then obtain s0 s3 where s: "r ! 0 = Str s0" "r ! 3 = Str s3"
        by (metis cell.exhaust)
      have "is_valid_amount (Str s3) \<longleftrightarrow> (\<exists>a. clean_amount s3 = Inr a)"
        by (auto simp: is_valid_amount_def astype_str_def split: sum.splits)
      moreover have "is_valid_date to_datetime (Str s0) \<longleftrightarrow> (\<exists>d. to_datetime s0 = Inr (Some d))"
        by (auto simp: is_valid_date_def split: sum.splits option.splits)
      ultimately show ?thesis using True s by (simp add: notna_def[abs_def])
    qed
  qed
  show ?thesis
    unfolding clean_transaction_data_def d1 e f g by (simp add: c sel_def)
qed

text \<open>
  On the sample table the rows of the starting and the ending balance have no date and
  go, the three transactions stay.
\<close>

lemma clean_transaction_data_rows_sample:
  "length (columns sample_table) = 4 \<and> distinct (columns sample_table) \<and>
   list_all (\<lambda>r. length r = 4) (rows sample_table) \<and>
   clean_transaction_data strptime_dmy sample_table =
     Inr \<lparr>columns = [''TRANS. DATE'', ''DESCRIPTION'', ''AMOUNT (BAHT)''],
          rows = [[Str ''02/01/23'', Str ''Purchase'', Str ''2,000.00''],
                  [Str ''03/01/23'', Str ''Payment'', Str ''-1,000.00''],
                  [Str ''04/01/23'', Str ''Purchase'', Str ''3,000.00'']]\<rparr>"
proof -
  have 1: "length (columns sample_table) = 4" by (simp add: sample_table_def)
  have 2: "distinct (columns sample_table)" by (simp add: sample_table_def)
  have 3: "\<forall>r\<in>set (rows sample_table). length r = 4" by (simp add: sample_table_def)
  have a: "clean_amount ''1,000.00'' = Inr \<lparr>d_sign = False, d_int = 100000, d_exp = - 2\<rparr>"
    "clean_amount ''2,000.00'' = Inr \<lparr>d_sign = False, d_int = 200000, d_exp = - 2\<rparr>"
    "clean_amount ''-1,000.00'' = Inr \<lparr>d_sign = True, d_int = 100000, d_exp = - 2\<rparr>"
    "clean_amount ''3,000.00'' = Inr \<lparr>d_sign = False, d_int = 300000, d_exp = - 2\<rparr>"
    "clean_amount ''5,000.00'' = Inr \<lparr>d_sign = False, d_int = 500000, d_exp = - 2\<rparr>"
    by (simp_all add: amount_eval)
  have d: "strptime_dmy [] = Inr None" "strptime_dmy ''02/01/23'' = Inr (Some (2, 1, 2023))"
    "strptime_dmy ''03/01/23'' = Inr (Some (3, 1, 2023))" "strptime_dmy ''04/01/23'' = Inr (Some (4, 1, 2023))"
    by (simp_all add: strptime_dmy_def is_digit_def digits_val_def digit_val_def)
  show ?thesis
    using clean_transaction_data_rows[OF 1 2 3, of strptime_dmy]
    by (simp add: sample_table_def a d)
qed


section \<open>The balance check\<close>

subsection \<open>Values of the arithmetic\<close>

definition pow10 :: "int \<Rightarrow> rat" where
  "pow10 e = (if 0 \<le> e then 10 ^ nat e else 1 / 10 ^ nat (- e))"

lemma pow10_pos: "0 < pow10 e"
  by (simp add: pow10_def)

lemma pow10_powi: "pow10 e = 10 powi e"
  by (simp add: pow10_def power_int_def inverse_eq_divide power_one_over)

lemma pow10_add: "pow10 (a + b) = pow10 a * pow10 b"
  by (simp add: pow10_powi power_int_add)

lemma pow10_nat: "pow10 (int n) = 10 ^ n"
  by (simp add: pow10_def)

lemma dec_val_signed: "dec_val d = of_int (signed_int d) * pow10 (d_exp d)"
  by (simp add: dec_val_def signed_int_def pow10_def)

lemma signed_int_rescale: "signed_int (rescale d e) = signed_int d * 10 ^ nat (d_exp d - e)"
  by (simp add: signed_int_def rescale_def)

lemma dec_val_rescale:
  assumes "e \<le> d_exp d"
  shows "dec_val (rescale d e) = dec_val d"
proof -
  have "pow10 (d_exp d) = pow10 (int (nat (d_exp d - e)) + e)" using assms by simp
  also have "\<dots> = 10 ^ nat (d_exp d - e) * pow10 e" by (simp only: pow10_add pow10_nat)
  finally show ?thesis
    by (simp add: dec_val_signed signed_int_rescale) (simp add: rescale_def)
qed

lemma dec_ne_iff: "dec_ne a b \<longleftrightarrow> dec_val a \<noteq> dec_val b"
proof -
  define e where "e = min (d_exp a) (d_exp b)"
  have "dec_val a = dec_val (rescale a e)" "dec_val b = dec_val (rescale b e)"
    by (simp_all add: dec_val_rescale e_def)
  then have "dec_val a = of_int (signed_int (rescale a e)) * pow10 e"
    "dec_val b = of_int (signed_int (rescale b e)) * pow10 e"
    by (simp_all add: dec_val_signed rescale_def)
  then have "dec_val a = dec_val b \<longleftrightarrow> signed_int (rescale a e) = signed_int (rescale b e)"
    using pow10_pos[of e] by simp
  then show ?thesis by (simp add: dec_ne_def e_def Let_def)
qed

subsection \<open>Sums that need no rounding\<close>

lemma digits_of_length: "0 < k \<Longrightarrow> n < 10 ^ k \<Longrightarrow> length (digits_of n) \<le> k"
proof (induction n arbitrary: k rule: digits_of.induct)
  case (1 n)
  show ?case
  proof (cases "n < 10")
    case True
    then show ?thesis using "1.prems" by (subst digits_of.simps) simp
  next
    case False
    with "1.prems" have "1 < k" by (cases "k = 1") auto
    then obtain k' where k: "k = Suc k'" "0 < k'" by (cases k) auto
    have "n div 10 < 10 ^ k'" using "1.prems" k by (simp add: div_less_iff_less_mult)
    then have "length (digits_of (n div 10)) \<le> k'" using "1.IH" False k by simp
    then show ?thesis using False k by (subst digits_of.simps) simp
  qed
qed

lemma dec_fix_small: "d_int d < 10 ^ prec \<Longrightarrow> dec_fix d = d"
  using digits_of_length[of prec "d_int d"] by (simp add: dec_fix_def Let_def prec_def)

definition mag :: "int \<Rightarrow> decimal \<Rightarrow> nat" where
  \<comment> \<open>the coefficient of \<open>d\<close> written to the exponent \<open>m\<close>\<close>
  "mag m d = d_int d * 10 ^ nat (d_exp d - m)"

lemma mag_ge: "d_int d \<le> mag m d"
  by (simp add: mag_def)

lemma mag_rescale:
  assumes "m \<le> e" "e \<le> d_exp d"
  shows "mag m (rescale d e) = mag m d"
proof -
  have "nat (d_exp d - e) + nat (e - m) = nat (d_exp d - m)" using assms by simp
  then have "(10::nat) ^ nat (d_exp d - e) * 10 ^ nat (e - m) = 10 ^ nat (d_exp d - m)"
    by (simp only: power_add[symmetric])
  then show ?thesis by (simp add: mag_def rescale_def mult.assoc)
qed

lemma abs_signed_int: "\<bar>signed_int d\<bar> = int (d_int d)"
  by (simp add: signed_int_def)

lemma dec_add_exact:
  assumes "m \<le> d_exp a" "m \<le> d_exp b" "mag m a + mag m b < 10 ^ prec"
  shows "dec_val (dec_add a b) = dec_val a + dec_val b \<and> m \<le> d_exp (dec_add a b) \<and>
         mag m (dec_add a b) \<le> mag m a + mag m b"
proof -
  define e where "e = min (d_exp a) (d_exp b)"
  have me: "m \<le> e" "e \<le> d_exp a" "e \<le> d_exp b" using assms by (simp_all add: e_def)
  consider (zz) "d_int a = 0" "d_int b = 0" | (za) "d_int a = 0" "d_int b \<noteq> 0"
    | (zb) "d_int a \<noteq> 0" "d_int b = 0" | (nz) "d_int a \<noteq> 0" "d_int b \<noteq> 0" by blast
  then show ?thesis
  proof cases
    case zz
    have "dec_add a b = \<lparr>d_sign = (d_sign a \<and> d_sign b), d_int = 0, d_exp = e\<rparr>"
      using zz by (simp add: dec_add_def Let_def e_def dec_fix_small)
    then show ?thesis using zz me by (simp add: dec_val_def mag_def)
  next
    case za
    define e' where "e' = max e (d_exp b - int prec - 1)"
    have e': "m \<le> e'" "e' \<le> d_exp b" using me by (simp_all add: e'_def)
    have "d_int (rescale b e') \<le> mag m (rescale b e')" by (rule mag_ge)
    also have "\<dots> = mag m b" using e' by (rule mag_rescale)
    finally have "d_int (rescale b e') < 10 ^ prec" using assms(3) by simp
    then have "dec_add a b = rescale b e'"
      using za by (simp add: dec_add_def Let_def e_def e'_def dec_fix_small)
    moreover have "dec_val a = 0" using za by (simp add: dec_val_def)
    ultimately show ?thesis
      using e' by (simp add: dec_val_rescale mag_rescale) (simp add: rescale_def)
  next
    case zb
    define e' where "e' = max e (d_exp a - int prec - 1)"
    have e': "m \<le> e'" "e' \<le> d_exp a" using me by (simp_all add: e'_def)
    have "d_int (rescale a e') \<le> mag m (rescale a e')" by (rule mag_ge)
    also have "\<dots> = mag m a" using e' by (rule mag_rescale)
    finally have "d_int (rescale a e') < 10 ^ prec" using assms(3) by simp
    then have "dec_add a b = rescale a e'"
      using zb by (simp add: dec_add_def Let_def e_def e'_def dec_fix_small)
    moreover have "dec_val b = 0" using zb by (simp add: dec_val_def)
    ultimately show ?thesis
      using e' by (simp add: dec_val_rescale mag_rescale) (simp add: rescale_def)
  next
    case nz
    define s where "s = signed_int (rescale a e) + signed_int (rescale b e)"
    define r where "r = \<lparr>d_sign = (s < 0), d_int = nat \<bar>s\<bar>, d_exp = e\<rparr>"
    have "\<bar>s\<bar> \<le> \<bar>signed_int (rescale a e)\<bar> + \<bar>signed_int (rescale b e)\<bar>"
      unfolding s_def by (rule abs_triangle_ineq)
    then have sb: "nat \<bar>s\<bar> \<le> d_int (rescale a e) + d_int (rescale b e)"
      by (simp add: abs_signed_int)
    have "mag m r = nat \<bar>s\<bar> * 10 ^ nat (e - m)" by (simp add: mag_def r_def)
    also have "\<dots> \<le> (d_int (rescale a e) + d_int (rescale b e)) * 10 ^ nat (e - m)"
      using sb by (rule mult_right_mono) simp
    also have "\<dots> = mag m (rescale a e) + mag m (rescale b e)"
      by (simp add: mag_def rescale_def algebra_simps)
    also have "\<dots> = mag m a + mag m b" using me by (simp add: mag_rescale)
    finally have mr: "mag m r \<le> mag m a + mag m b" .
    have "d_int r \<le> mag m r" by (rule mag_ge)
    with mr assms(3) have "d_int r < 10 ^ prec" by simp
    then have "dec_fix r = r" by (rule dec_fix_small)
    then have ar: "dec_add a b = r"
      using nz by (simp add: dec_add_def Let_def e_def[symmetric] s_def[symmetric] r_def)
    have "signed_int r = s" by (simp add: signed_int_def r_def)
    then have "dec_val r = of_int s * pow10 e" by (simp add: dec_val_signed r_def)
    also have "\<dots> = of_int (signed_int (rescale a e)) * pow10 e +
        of_int (signed_int (rescale b e)) * pow10 e"
      by (simp add: s_def algebra_simps)
    also have "\<dots> = dec_val (rescale a e) + dec_val (rescale b e)"
      by (simp add: dec_val_signed rescale_def)
    also have "\<dots> = dec_val a + dec_val b" using me by (simp add: dec_val_rescale)
    finally have "dec_val r = dec_val a + dec_val b" .
    then show ?thesis using ar mr me by (simp add: r_def)
  qed
qed

lemma foldl_dec_add_exact:
  assumes "m \<le> d_exp acc" "\<forall>x\<in>set xs. m \<le> d_exp x"
    "mag m acc + sum_list (map (mag m) xs) < 10 ^ prec"
  shows "dec_val (foldl dec_add acc xs) = dec_val acc + sum_list (map dec_val xs) \<and>
         m \<le> d_exp (foldl dec_add acc xs) \<and>
         mag m (foldl dec_add acc xs) \<le> mag m acc + sum_list (map (mag m) xs)"
  using assms
proof (induction xs arbitrary: acc)
  case Nil
  then show ?case by simp
next
  case (Cons x xs)
  have 1: "mag m acc + mag m x < 10 ^ prec" using Cons.prems(3) by simp
  note s = dec_add_exact[OF Cons.prems(1) _ 1]
  have mx: "m \<le> d_exp x" using Cons.prems(2) by simp
  have 2: "mag m (dec_add acc x) + sum_list (map (mag m) xs) < 10 ^ prec"
    using s[OF mx] Cons.prems(3) by simp
  have ih: "dec_val (foldl dec_add (dec_add acc x) xs) = dec_val (dec_add acc x) + sum_list (map dec_val xs) \<and>
      m \<le> d_exp (foldl dec_add (dec_add acc x) xs) \<and>
      mag m (foldl dec_add (dec_add acc x) xs) \<le> mag m (dec_add acc x) + sum_list (map (mag m) xs)"
    by (rule Cons.IH) (use s[OF mx] Cons.prems(2) 2 in auto)
  show ?case using ih s[OF mx] by simp
qed

lemma series_sum_exact:
  assumes "m \<le> 0" "\<forall>x\<in>set xs. m \<le> d_exp x" "sum_list (map (mag m) xs) < 10 ^ prec"
  shows "dec_val (series_sum xs) = sum_list (map dec_val xs) \<and> m \<le> d_exp (series_sum xs) \<and>
         mag m (series_sum xs) \<le> sum_list (map (mag m) xs)"
proof (cases xs)
  case Nil
  then show ?thesis using assms(1) by (simp add: series_sum_def dec_val_def mag_def)
next
  case (Cons x xs')
  then show ?thesis
    using foldl_dec_add_exact[of m x xs'] assms by (simp add: series_sum_def)
qed

text \<open>
  Claim C1, as the code has it.  The sum and the addition of the starting balance are
  \<^verbatim>\<open>Decimal\<close> additions in the default context, which round to 28 significant digits;
  the comparison with the ending balance is exact.  Whenever the coefficients of the
  starting balance and of all amounts, written to a common exponent \<open>m\<close>, add up to less
  than \<open>10\<^sup>2\<^sup>8\<close>, no addition rounds, and \<^const>\<open>validate_transaction_totals\<close> raises its
  \<^verbatim>\<open>ValueError\<close> exactly when the starting balance plus the exact sum of the amounts is not
  the ending balance, and returns otherwise.  (The exponent \<open>m\<close> is at most \<open>0\<close>, the
  exponent of the \<open>0\<close> that a column without rows sums to; amounts parsed by
  \<^const>\<open>clean_amount\<close> have negative exponents.)
\<close>

theorem validate_transaction_totals_exact:
  assumes "m \<le> 0" "\<forall>d\<in>set (starting_balance # amounts df). m \<le> d_exp d"
    "sum_list (map (mag m) (starting_balance # amounts df)) < 10 ^ prec"
  shows "(validate_transaction_totals df starting_balance ending_balance = Inl ValueError \<longleftrightarrow>
            dec_val starting_balance + sum_list (map dec_val (amounts df)) \<noteq> dec_val ending_balance) \<and>
         (validate_transaction_totals df starting_balance ending_balance = Inr () \<longleftrightarrow>
            dec_val starting_balance + sum_list (map dec_val (amounts df)) = dec_val ending_balance) \<and>
         dec_val (dec_add starting_balance (series_sum (amounts df))) =
            dec_val starting_balance + sum_list (map dec_val (amounts df))"
proof -
  have s: "dec_val (series_sum (amounts df)) = sum_list (map dec_val (amounts df))"
    "m \<le> d_exp (series_sum (amounts df))"
    "mag m (series_sum (amounts df)) \<le> sum_list (map (mag m) (amounts df))"
    using series_sum_exact[of m "amounts df"] assms by simp_all
  have "mag m starting_balance + mag m (series_sum (amounts df)) < 10 ^ prec"
    using s(3) assms(3) by simp
  then have "dec_val (dec_add starting_balance (series_sum (amounts df))) =
      dec_val starting_balance + dec_val (series_sum (amounts df))"
    using dec_add_exact[of m starting_balance "series_sum (amounts df)"] assms(2) s(2) by simp
  then show ?thesis
    by (simp add: validate_transaction_totals_def Let_def dec_ne_iff s(1))
qed

text \<open>The three transactions of the sample table, after \<^const>\<open>convert_data_types\<close>.\<close>

definition sample_ledger :: "(nat \<times> nat \<times> nat) ledger" where
  "sample_ledger =
     \<lparr>l_columns = [''TRANS. DATE'', ''DESCRIPTION'', ''AMOUNT (BAHT)''],
      l_rows =
        [\<lparr>t_date = Some (2, 1, 2023), t_mid = [Str ''Purchase''],
          t_amount = \<lparr>d_sign = False, d_int = 200000, d_exp = - 2\<rparr>\<rparr>,
         \<lparr>t_date = Some (3, 1, 2023), t_mid = [Str ''Payment''],
          t_amount = \<lparr>d_sign = True, d_int = 100000, d_exp = - 2\<rparr>\<rparr>,
         \<lparr>t_date = Some (4, 1, 2023), t_mid = [Str ''Purchase''],
          t_amount = \<lparr>d_sign = False, d_int = 300000, d_exp = - 2\<rparr>\<rparr>]\<rparr>"

text \<open>
  The theorem of C1 on the sample: \<open>1000.00 + 2000.00 - 1000.00 + 3000.00 = 5000.00\<close> passes,
  and an ending balance of \<open>5000.01\<close> raises.
\<close>

theorem validate_transaction_totals_exact_witness:
  "(- 2 :: int) \<le> 0 \<and>
   list_all (\<lambda>d. - 2 \<le> d_exp d)
     (\<lparr>d_sign = False, d_int = 100000, d_exp = - 2\<rparr> # amounts sample_ledger) \<and>
   sum_list (map (mag (- 2)) (\<lparr>d_sign = False, d_int = 100000, d_exp = - 2\<rparr> # amounts sample_ledger))
     < 10 ^ prec \<and>
   validate_transaction_totals sample_ledger \<lparr>d_sign = False, d_int = 100000, d_exp = - 2\<rparr>
     \<lparr>d_sign = False, d_int = 500000, d_exp = - 2\<rparr> = Inr () \<and>
   validate_transaction_totals sample_ledger \<lparr>d_sign = False, d_int = 100000, d_exp = - 2\<rparr>
     \<lparr>d_sign = False, d_int = 500001, d_exp = - 2\<rparr> = Inl ValueError"
proof -
  let ?s = "\<lparr>d_sign = False, d_int = 100000, d_exp = - 2\<rparr>"
  have 1: "(- 2 :: int) \<le> 0" by simp
  have 2: "\<forall>d\<in>set (?s # amounts sample_ledger). - 2 \<le> d_exp d"
    by (simp add: amounts_def sample_ledger_def)
  have 3: "sum_list (map (mag (- 2)) (?s # amounts sample_ledger)) < 10 ^ prec"
    by (simp add: amounts_def sample_ledger_def mag_def prec_def)
  have v: "dec_val ?s + sum_list (map dec_val (amounts sample_ledger)) = 5000"
    by (simp add: amounts_def sample_ledger_def dec_val_def)
  have e: "dec_val \<lparr>d_sign = False, d_int = 500000, d_exp = - 2\<rparr> = 5000"
    "dec_val \<lparr>d_sign = False, d_int = 500001, d_exp = - 2\<rparr> \<noteq> 5000"
    by (simp_all add: dec_val_def)
  show ?thesis
    using validate_transaction_totals_exact[OF 1 2 3, of "\<lparr>d_sign = False, d_int = 500000, d_exp = - 2\<rparr>"]
      validate_transaction_totals_exact[OF 1 2 3, of "\<lparr>d_sign = False, d_int = 500001, d_exp = - 2\<rparr>"]
      2 3 v e
    by (simp add: list_all_iff)
qed

text \<open>
  Claim C1 as stated fails beyond 28 digits.  With a starting balance of \<^verbatim>\<open>0.00\<close> and the
  single amount \<^verbatim>\<open>10000000000000000000000000000.01\<close>, which is also the ending balance,
  the exact sum is the ending balance, but the addition rounds it to
  \<^verbatim>\<open>1.000000000000000000000000000E+28\<close> and the check raises.
\<close>

theorem validate_transaction_totals_rounding_counterexample:
  "clean_amount ''0.00'' = Inr \<lparr>d_sign = False, d_int = 0, d_exp = - 2\<rparr> \<and>
   clean_amount ''10000000000000000000000000000.01'' =
     Inr \<lparr>d_sign = False, d_int = 1000000000000000000000000000001, d_exp = - 2\<rparr> \<and>
   dec_val \<lparr>d_sign = False, d_int = 0, d_exp = - 2\<rparr> +
     sum_list (map dec_val (amounts
       \<lparr>l_columns = [''TRANS. DATE'', ''DESCRIPTION'', ''AMOUNT (BAHT)''],
        l_rows = [\<lparr>t_date = Some (2 :: nat, 1 :: nat, 2023 :: nat), t_mid = [Str ''Purchase''],
                  t_amount = \<lparr>d_sign = False, d_int = 1000000000000000000000000000001, d_exp = - 2\<rparr>\<rparr>]\<rparr>))
     = dec_val \<lparr>d_sign = False, d_int = 1000000000000000000000000000001, d_exp = - 2\<rparr> \<and>
   validate_transaction_totals
     \<lparr>l_columns = [''TRANS. DATE'', ''DESCRIPTION'', ''AMOUNT (BAHT)''],
      l_rows = [\<lparr>t_date = Some (2 :: nat, 1 :: nat, 2023 :: nat), t_mid = [Str ''Purchase''],
                t_amount = \<lparr>d_sign = False, d_int = 1000000000000000000000000000001, d_exp = - 2\<rparr>\<rparr>]\<rparr>
     \<lparr>d_sign = False, d_int = 0, d_exp = - 2\<rparr>
     \<lparr>d_sign = False, d_int = 1000000000000000000000000000001, d_exp = - 2\<rparr> = Inl ValueError"
proof -
  have 1: "clean_amount ''0.00'' = Inr \<lparr>d_sign = False, d_int = 0, d_exp = - 2\<rparr>"
    by (simp add: amount_eval)
  have 2: "clean_amount ''10000000000000000000000000000.01'' =
     Inr \<lparr>d_sign = False, d_int = 1000000000000000000000000000001, d_exp = - 2\<rparr>"
    by (simp add: amount_eval)
  have 3: "length (digits_of 1000000000000000000000000000001) = 31"
    by (simp add: digits_of.simps)
  have 4: "length (digits_of 1000000000000000000000000000) = 28"
    by (simp add: digits_of.simps)
  have 5: "dec_add \<lparr>d_sign = False, d_int = 0, d_exp = - 2\<rparr>
      \<lparr>d_sign = False, d_int = 1000000000000000000000000000001, d_exp = - 2\<rparr> =
      \<lparr>d_sign = False, d_int = 1000000000000000000000000000, d_exp = 1\<rparr>"
    by (simp add: dec_add_def rescale_def dec_fix_def Let_def prec_def 3 4)
  show ?thesis
    unfolding 1 2
    by (simp add: validate_transaction_totals_def amounts_def series_sum_def 5 Let_def dec_ne_def
        rescale_def signed_int_def dec_val_def)
qed

section \<open>The pipeline\<close>

definition reaches_reconciliation ::
  "(string \<Rightarrow> error + 'd option) \<Rightarrow> frame list \<Rightarrow> 'd ledger \<Rightarrow> decimal \<Rightarrow> decimal \<Rightarrow> bool" where
  \<comment> \<open>the run of \<^const>\<open>process_pdf\<close> on \<open>tables\<close> arrives at the call of
      \<^const>\<open>validate_transaction_totals\<close>, with these arguments\<close>
  "reaches_reconciliation to_datetime tables df starting_balance ending_balance =
     (let transaction_dfs = filter is_transaction_table (map clean_columns tables);
          combined = pd_concat transaction_dfs
      in transaction_dfs \<noteq> [] \<and>
         (\<exists>c0 c1 df1.
            iloc_last combined 0 = Inr c0 \<and> clean_amount_cell c0 = Inr starting_balance \<and>
            iloc_last combined (length (rows combined) - 1) = Inr c1 \<and>
            clean_amount_cell c1 = Inr ending_balance \<and>
            clean_transaction_data to_datetime combined = Inr df1 \<and>
            convert_data_types to_datetime df1 = Inr df))"

lemma process_pdf_reconciliation_fails:
  assumes "reaches_reconciliation to_datetime tables df s e"
    "validate_transaction_totals df s e = Inl err"
  shows "process_pdf to_datetime date_str tables = Failed err"
proof -
  define dfs where "dfs = filter is_transaction_table (map clean_columns tables)"
  from assms(1) obtain c0 c1 df1 where r: "dfs \<noteq> []"
    "iloc_last (pd_concat dfs) 0 = Inr c0" "clean_amount_cell c0 = Inr s"
    "iloc_last (pd_concat dfs) (length (rows (pd_concat dfs)) - 1) = Inr c1"
    "clean_amount_cell c1 = Inr e"
    "clean_transaction_data to_datetime (pd_concat dfs) = Inr df1"
    "convert_data_types to_datetime df1 = Inr df"
    unfolding reaches_reconciliation_def Let_def dfs_def by blast
  have "transactions to_datetime (pd_concat dfs) = Inl err"
    by (simp add: transactions_def r assms(2) del: One_nat_def)
  moreover have "tables \<noteq> []" using r(1) by (auto simp: dfs_def)
  ultimately show ?thesis using r(1) by (simp add: process_pdf_def Let_def dfs_def[symmetric])
qed

lemma process_pdf_saved_reconciled:
  assumes "process_pdf to_datetime date_str tables = Saved csv"
  shows "\<exists>df s e. reaches_reconciliation to_datetime tables df s e \<and>
           validate_transaction_totals df s e = Inr ()"
proof -
  define dfs where "dfs = filter is_transaction_table (map clean_columns tables)"
  from assms obtain df' where t: "dfs \<noteq> []" "transactions to_datetime (pd_concat dfs) = Inr df'"
    by (auto simp: process_pdf_def Let_def dfs_def split: if_splits sum.splits)
  from t(2) obtain c0 s c1 e df1 df2 where
    "iloc_last (pd_concat dfs) 0 = Inr c0" "clean_amount_cell c0 = Inr s"
    "iloc_last (pd_concat dfs) (length (rows (pd_concat dfs)) - 1) = Inr c1"
    "clean_amount_cell c1 = Inr e"
    "clean_transaction_data to_datetime (pd_concat dfs) = Inr df1"
    "convert_data_types to_datetime df1 = Inr df2"
    "validate_transaction_totals df2 s e = Inr ()"
    by (auto simp: transactions_def simp del: One_nat_def split: sum.splits)
  then show ?thesis using t(1)
    unfolding reaches_reconciliation_def Let_def dfs_def by blast
qed

text \<open>
  Claim C8.  When the run arrives at the balance check and the check raises, the result of
  \<^const>\<open>process_pdf\<close> is the handler's, with that exception: the payment filter, the sign
  flip and \<^const>\<open>save_to_csv\<close> have no part in it and no file is written.  Conversely, a
  file is written only by a run whose balance check returned.
\<close>

theorem reconciliation_failure_writes_nothing:
  "(reaches_reconciliation to_datetime tables df s e \<and>
    validate_transaction_totals df s e = Inl err \<longrightarrow>
      process_pdf to_datetime date_str tables = Failed err \<and>
      (\<forall>csv. process_pdf to_datetime date_str tables \<noteq> Saved csv)) \<and>
   (process_pdf to_datetime date_str tables = Saved csv \<longrightarrow>
      (\<exists>df s e. reaches_reconciliation to_datetime tables df s e \<and>
         validate_transaction_totals df s e = Inr ()))"
  using process_pdf_reconciliation_fails[of to_datetime tables df s e err date_str]
    process_pdf_saved_reconciled[of to_datetime date_str tables csv]
  by auto

subsection \<open>The sample run\<close>

definition unbalanced_table :: frame where
  \<comment> \<open>the sample table with a wrong ending balance\<close>
  "unbalanced_table =
     \<lparr>columns = [''TRANS. DATE'', ''POSTING DATE'', ''DESCRIPTION'', ''AMOUNT (BAHT)''],
      rows = [[Str '''', Str '''', Str ''Starting Balance'', Str ''1,000.00''],
              [Str ''02/01/23'', Str ''02/01/23'', Str ''Purchase'', Str ''2,000.00''],
              [Str ''03/01/23'', Str ''03/01/23'', Str ''Payment'', Str ''-1,000.00''],
              [Str ''04/01/23'', Str ''04/01/23'', Str ''Purchase'', Str ''3,000.00''],
              [Str '''', Str '''', Str ''Ending Balance'', Str ''9,999.00'']]\<rparr>"

lemmas clean_columns_eval = clean_columns_def clean_columns_loop.simps look_ahead.simps Let_def
  iloc_col_def astype_str_def setitem_def replace_nan_def

lemmas header_eval = is_transaction_table_def validate_transaction_table_columns_def expected_columns_def
  expected_keywords_def upper_def upper_char_def

lemma sample_amounts:
  "clean_amount ''1,000.00'' = Inr \<lparr>d_sign = False, d_int = 100000, d_exp = - 2\<rparr>"
  "clean_amount ''2,000.00'' = Inr \<lparr>d_sign = False, d_int = 200000, d_exp = - 2\<rparr>"
  "clean_amount ''-1,000.00'' = Inr \<lparr>d_sign = True, d_int = 100000, d_exp = - 2\<rparr>"
  "clean_amount ''3,000.00'' = Inr \<lparr>d_sign = False, d_int = 300000, d_exp = - 2\<rparr>"
  "clean_amount ''5,000.00'' = Inr \<lparr>d_sign = False, d_int = 500000, d_exp = - 2\<rparr>"
  "clean_amount ''9,999.00'' = Inr \<lparr>d_sign = False, d_int = 999900, d_exp = - 2\<rparr>"
  by (simp_all add: amount_eval)

lemma sample_dates:
  "strptime_dmy [] = Inr None" "strptime_dmy ''02/01/23'' = Inr (Some (2, 1, 2023))"
  "strptime_dmy ''03/01/23'' = Inr (Some (3, 1, 2023))" "strptime_dmy ''04/01/23'' = Inr (Some (4, 1, 2023))"
  by (simp_all add: strptime_dmy_def is_digit_def digits_val_def digit_val_def)

lemma unbalanced_clean_columns: "clean_columns unbalanced_table = unbalanced_table"
  by (simp add: unbalanced_table_def clean_columns_eval)

lemma unbalanced_header: "is_transaction_table unbalanced_table"
  by (simp add: unbalanced_table_def header_eval)

lemma unbalanced_concat: "pd_concat [unbalanced_table] = unbalanced_table"
  by (simp add: pd_concat_def unbalanced_table_def)

lemma unbalanced_sanitized:
  "clean_transaction_data strptime_dmy unbalanced_table =
     Inr \<lparr>columns = [''TRANS. DATE'', ''DESCRIPTION'', ''AMOUNT (BAHT)''],
          rows = [[Str ''02/01/23'', Str ''Purchase'', Str ''2,000.00''],
                  [Str ''03/01/23'', Str ''Payment'', Str ''-1,000.00''],
                  [Str ''04/01/23'', Str ''Purchase'', Str ''3,000.00'']]\<rparr>"
  by (simp add: unbalanced_table_def dropna_def drop_label_def date_amount_filter_def
      clean_transaction_data_def select_def iloc_col_def is_valid_date_def is_valid_amount_def
      astype_str_def notna_def Let_def sample_amounts sample_dates)

lemma sample_converted:
  "convert_data_types strptime_dmy
     \<lparr>columns = [''TRANS. DATE'', ''DESCRIPTION'', ''AMOUNT (BAHT)''],
      rows = [[Str ''02/01/23'', Str ''Purchase'', Str ''2,000.00''],
              [Str ''03/01/23'', Str ''Payment'', Str ''-1,000.00''],
              [Str ''04/01/23'', Str ''Purchase'', Str ''3,000.00'']]\<rparr> = Inr sample_ledger"
  by (simp add: convert_data_types_def iloc_col_def to_datetime_raise_def clean_amount_cell_def
      sample_amounts sample_dates sample_ledger_def)

lemma sample_total:
  "dec_add \<lparr>d_sign = False, d_int = 100000, d_exp = - 2\<rparr> (series_sum (amounts sample_ledger)) =
     \<lparr>d_sign = False, d_int = 500000, d_exp = - 2\<rparr>"
  by (simp add: series_sum_def amounts_def sample_ledger_def dec_add_def rescale_def
      signed_int_def Let_def dec_fix_small prec_def)

text \<open>
  The theorem of C8 on the sample table with the ending balance \<^verbatim>\<open>9,999.00\<close>: the run
  arrives at the check with \<open>1000.00\<close>, the three transactions and \<open>9999.00\<close>, the check
  raises, and the result is the handler's.
\<close>

theorem reconciliation_failure_writes_nothing_witness:
  "reaches_reconciliation strptime_dmy [unbalanced_table] sample_ledger
     \<lparr>d_sign = False, d_int = 100000, d_exp = - 2\<rparr> \<lparr>d_sign = False, d_int = 999900, d_exp = - 2\<rparr> \<and>
   validate_transaction_totals sample_ledger
     \<lparr>d_sign = False, d_int = 100000, d_exp = - 2\<rparr> \<lparr>d_sign = False, d_int = 999900, d_exp = - 2\<rparr>
     = Inl ValueError \<and>
   process_pdf strptime_dmy iso_date [unbalanced_table] = Failed ValueError"
proof -
  have i: "iloc_last unbalanced_table 0 = Inr (Str ''1,000.00'')"
    "iloc_last unbalanced_table (length (rows unbalanced_table) - 1) = Inr (Str ''9,999.00'')"
    by (simp_all add: iloc_last_def unbalanced_table_def)
  have 1: "reaches_reconciliation strptime_dmy [unbalanced_table] sample_ledger
     \<lparr>d_sign = False, d_int = 100000, d_exp = - 2\<rparr> \<lparr>d_sign = False, d_int = 999900, d_exp = - 2\<rparr>"
    unfolding reaches_reconciliation_def
    by (simp add: unbalanced_clean_columns unbalanced_header unbalanced_concat i
        clean_amount_cell_def sample_amounts unbalanced_sanitized sample_converted
        del: One_nat_def)
  have 2: "validate_transaction_totals sample_ledger
     \<lparr>d_sign = False, d_int = 100000, d_exp = - 2\<rparr> \<lparr>d_sign = False, d_int = 999900, d_exp = - 2\<rparr>
     = Inl ValueError"
    by (simp add: validate_transaction_totals_def Let_def sample_total dec_ne_def rescale_def
        signed_int_def)
  from reconciliation_failure_writes_nothing[of strptime_dmy "[unbalanced_table]" sample_ledger
      "\<lparr>d_sign = False, d_int = 100000, d_exp = - 2\<rparr>"
      "\<lparr>d_sign = False, d_int = 999900, d_exp = - 2\<rparr>" ValueError iso_date] 1 2
  show ?thesis by simp
qed

section \<open>The exported file\<close>

definition fraction_digits :: "string \<Rightarrow> nat option" where
  \<comment> \<open>the number of characters after the decimal point of a number in plain notation;
      \<^term>\<open>None\<close> for a text without a point or in scientific notation\<close>
  "fraction_digits s =
     (if CHR ''.'' \<in> set s \<and> CHR ''E'' \<notin> set s
      then Some (length (takeWhile (\<lambda>c. c \<noteq> CHR ''.'') (rev s))) else None)"

lemma digit_char_digit: "n < 10 \<Longrightarrow> is_digit (digit_char n)"
  unfolding is_digit_def digit_char_def by (rule nth_mem) simp

lemma digits_of_digits: "list_all is_digit (digits_of n)"
proof (induction n rule: digits_of.induct)
  case (1 n)
  show ?case
  proof (cases "n < 10")
    case True
    then show ?thesis by (subst digits_of.simps) (simp add: digit_char_digit)
  next
    case False
    then show ?thesis using "1.IH" by (subst digits_of.simps) (simp add: digit_char_digit)
  qed
qed

lemma digits_of_nonempty: "digits_of n \<noteq> []"
  by (subst digits_of.simps) simp

lemma not_E_digit: "is_digit c \<Longrightarrow> c \<noteq> CHR ''E''"
  by (auto simp: is_digit_def)

lemma fraction_digits_plain:
  assumes "list_all is_digit a" "list_all is_digit f" "sg = [] \<or> sg = ''-''"
  shows "fraction_digits (sg @ a @ CHR ''.'' # f) = Some (length f)"
proof -
  have nf: "\<forall>c\<in>set f. c \<noteq> CHR ''.''" "\<forall>c\<in>set f. c \<noteq> CHR ''E''"
    "\<forall>c\<in>set a. c \<noteq> CHR ''E''"
    using assms(1,2) not_dot_digit not_E_digit unfolding list_all_iff by blast+
  have r: "rev (sg @ a @ CHR ''.'' # f) = rev f @ CHR ''.'' # (rev a @ rev sg)" by simp
  have "takeWhile (\<lambda>c. c \<noteq> CHR ''.'') (rev f @ CHR ''.'' # (rev a @ rev sg)) =
      rev f @ takeWhile (\<lambda>c. c \<noteq> CHR ''.'') (CHR ''.'' # (rev a @ rev sg))"
    by (rule takeWhile_append2) (use nf(1) in simp)
  then have t: "takeWhile (\<lambda>c. c \<noteq> CHR ''.'') (rev (sg @ a @ CHR ''.'' # f)) = rev f"
    unfolding r by simp
  have "CHR ''E'' \<notin> set sg" using assms(3) by (rule disjE) simp_all
  moreover have "CHR ''E'' \<notin> set a" "CHR ''E'' \<notin> set f" using nf(2,3) by blast+
  ultimately have e: "CHR ''E'' \<notin> set (sg @ a @ CHR ''.'' # f)" by simp
  have d: "CHR ''.'' \<in> set (sg @ a @ CHR ''.'' # f)" by simp
  show ?thesis unfolding fraction_digits_def t using e d by simp
qed

lemma dec_str_plain:
  assumes "d_exp d = - int k" "0 < k" "k < length (digits_of (d_int d)) + 6"
  shows "fraction_digits (dec_str d) = Some k"
proof -
  define ds where "ds = digits_of (d_int d)"
  define n where "n = length ds"
  define sg where "sg = (if d_sign d then ''-'' else [])"
  have dd: "list_all is_digit ds" unfolding ds_def by (rule digits_of_digits)
  have sg: "sg = [] \<or> sg = ''-''" by (simp add: sg_def)
  have k6: "k < n + 6" using assms(3) by (simp add: n_def ds_def)
  have z: "is_digit CHR ''0''" by (simp add: is_digit_def)
  show ?thesis
  proof (cases "n \<le> k")
    case True
    have s: "dec_str d = sg @ ''0'' @ CHR ''.'' # (replicate (k - n) CHR ''0'' @ ds)"
      using True assms(1,2) k6
      by (simp add: dec_str_def Let_def ds_def[symmetric] n_def[symmetric] sg_def nat_diff_distrib')
    have f: "list_all is_digit (replicate (k - n) CHR ''0'' @ ds)"
      using dd z by (auto simp: list_all_iff)
    have a: "list_all is_digit ''0''" using z by simp
    have "fraction_digits (dec_str d) = Some (length (replicate (k - n) CHR ''0'' @ ds))"
      unfolding s by (rule fraction_digits_plain[OF a f sg])
    then show ?thesis using True by (simp add: n_def)
  next
    case False
    then have kn: "k < n" by simp
    have s: "dec_str d = sg @ take (n - k) ds @ CHR ''.'' # drop (n - k) ds"
      using kn assms(1,2)
      by (simp add: dec_str_def Let_def ds_def[symmetric] n_def[symmetric] sg_def nat_diff_distrib'
          of_nat_diff)
    have a: "list_all is_digit (take (n - k) ds)" and f: "list_all is_digit (drop (n - k) ds)"
      using dd by (auto simp: list_all_iff dest: in_set_takeD in_set_dropD)
    have "fraction_digits (dec_str d) = Some (length (drop (n - k) ds))"
      unfolding s by (rule fraction_digits_plain[OF a f sg])
    then show ?thesis using kn by (simp add: n_def)
  qed
qed

lemma dec_neg_small:
  "d_int d < 10 ^ prec \<Longrightarrow> dec_neg d = d\<lparr>d_sign := (d_int d \<noteq> 0 \<and> \<not> d_sign d)\<rparr>"
  by (simp add: dec_neg_def dec_fix_small)

lemma two_fraction_digits:
  assumes "d_exp a = - 2" "d_int a < 10 ^ prec"
  shows "fraction_digits (dec_str (dec_neg a)) = Some 2"
proof -
  have "d_exp (dec_neg a) = - int 2" "d_int (dec_neg a) = d_int a"
    using assms by (simp_all add: dec_neg_small)
  then show ?thesis using dec_str_plain[of "dec_neg a" 2] by simp
qed

subsection \<open>Column names through the pipeline\<close>

lemma index_of_None: "index_of x xs = None \<longleftrightarrow> x \<notin> set xs"
  by (induction xs) auto

lemma setitem_distinct:
  assumes "distinct (columns new_df)"
  shows "distinct (columns (setitem new_df n col))"
proof (cases "index_of n (columns new_df)")
  case None
  then have "n \<notin> set (columns new_df)" by (simp add: index_of_None)
  then show ?thesis using assms by (simp add: setitem_def None)
next
  case (Some k)
  then show ?thesis using assms by (simp add: setitem_def)
qed

lemma clean_columns_loop_distinct:
  "distinct (columns new_df) \<Longrightarrow> distinct (columns (clean_columns_loop df i new_df))"
proof (induction df i new_df rule: clean_columns_loop.induct)
  case (1 df i new_df)
  show ?case
  proof (cases "i < length (columns df)")
    case True
    define la where "la = look_ahead df (columns df ! i) (i + 1) (map astype_str (iloc_col df i))"
    define nd where "nd = setitem new_df (columns df ! i) (map (\<lambda>s. Str (replace_nan s)) (snd la))"
    have nn: "distinct (columns nd)"
      unfolding nd_def using "1.prems" by (rule setitem_distinct)
    have "distinct (columns (clean_columns_loop df (fst la) nd))"
      unfolding nd_def by (rule "1.IH"[OF True refl refl la_def]) (use nn in \<open>simp add: nd_def\<close>)
    moreover have "clean_columns_loop df i new_df = clean_columns_loop df (fst la) nd"
      using True by (subst clean_columns_loop.simps) (simp add: Let_def la_def nd_def)
    ultimately show ?thesis by simp
  next
    case False
    then have "clean_columns_loop df i new_df = new_df"
      by (subst clean_columns_loop.simps) simp
    with "1.prems" show ?thesis by simp
  qed
qed

lemma clean_columns_distinct: "distinct (columns (clean_columns df))"
  unfolding clean_columns_def by (rule clean_columns_loop_distinct) simp

lemma union_columns_distinct:
  "distinct acc \<Longrightarrow> \<forall>df\<in>set dfs. distinct (columns df) \<Longrightarrow>
   distinct (foldl (\<lambda>acc df. acc @ filter (\<lambda>c. c \<notin> set acc) (columns df)) acc dfs)"
proof (induction dfs arbitrary: acc)
  case Nil
  then show ?case by simp
next
  case (Cons a dfs)
  have "distinct (acc @ filter (\<lambda>c. c \<notin> set acc) (columns a))"
    using Cons.prems by auto
  then show ?case using Cons.IH Cons.prems(2) by simp
qed

lemma pd_concat_distinct:
  "\<forall>df\<in>set dfs. distinct (columns df) \<Longrightarrow> distinct (columns (pd_concat dfs))"
  using union_columns_distinct[of "[]" dfs] by (simp add: pd_concat_def Let_def)

lemma accepted_distinct:
  "distinct (columns (pd_concat (filter is_transaction_table (map clean_columns tables))))"
  by (rule pd_concat_distinct) (auto simp: clean_columns_distinct)

lemma clean_transaction_data_columns:
  assumes "clean_transaction_data to_datetime df = Inr df1"
  shows "columns df1 = select (map (\<lambda>c. c \<noteq> columns df ! 1) (columns df)) (columns df)"
  using assms
  by (auto simp: clean_transaction_data_def date_amount_filter_def dropna_def drop_label_def Let_def
      split: if_splits)

lemma retained_names:
  assumes "clean_transaction_data to_datetime df = Inr df1" "length (columns df) = 4"
    "distinct (columns df)"
  shows "columns df1 = [columns df ! 0, columns df ! 2, columns df ! 3]"
proof -
  obtain c0 c1 c2 c3 where c: "columns df = [c0, c1, c2, c3]"
    using assms(2) by (auto simp: length_Suc_conv numeral_eq_Suc)
  have "map (\<lambda>x. x \<noteq> c1) [c0, c1, c2, c3] = [True, False, True, True]"
    using assms(3) c by auto
  then have "select (map (\<lambda>x. x \<noteq> columns df ! 1) (columns df)) (columns df) = [c0, c2, c3]"
    unfolding c by (simp add: select_def)
  then show ?thesis using clean_transaction_data_columns[OF assms(1)] c by simp
qed

subsection \<open>Amounts through the pipeline\<close>

lemma mapM_Inr: "mapM f xs = Inr ys \<Longrightarrow> list_all2 (\<lambda>x y. f x = Inr y) xs ys"
  by (induction xs arbitrary: ys) (auto split: sum.splits)

lemma convert_data_types_columns:
  "convert_data_types to_datetime df1 = Inr df2 \<Longrightarrow> l_columns df2 = columns df1"
  by (auto simp: convert_data_types_def split: if_splits sum.splits)

lemma convert_data_types_amounts:
  assumes "convert_data_types to_datetime df1 = Inr df2" "t \<in> set (l_rows df2)"
  shows "\<exists>r\<in>set (rows df1). clean_amount_cell (r ! (length (columns df1) - 1)) = Inr (t_amount t)"
proof (cases "length (columns df1) = 1")
  case True
  with assms show ?thesis
    by (auto simp: convert_data_types_def split: if_splits sum.splits)
next
  case False
  from assms(1) False obtain dates amts where
    d: "mapM (to_datetime_raise to_datetime) (iloc_col df1 0) = Inr dates" and
    a: "mapM clean_amount_cell (iloc_col df1 (length (columns df1) - 1)) = Inr amts" and
    r: "l_rows df2 = map (\<lambda>(r, d, a). \<lparr>t_date = d, t_mid = butlast (tl r), t_amount = a\<rparr>)
                       (zip (rows df1) (zip dates amts))"
    by (auto simp: convert_data_types_def split: if_splits sum.splits)
  have la: "list_all2 (\<lambda>x y. clean_amount_cell x = Inr y) (iloc_col df1 (length (columns df1) - 1)) amts"
    using a by (rule mapM_Inr)
  from assms(2) r obtain row dt am where
    z: "(row, dt, am) \<in> set (zip (rows df1) (zip dates amts))" "t_amount t = am"
    by auto
  then obtain i where i: "i < length (rows df1)" "i < length amts" "rows df1 ! i = row" "amts ! i = am"
    by (auto simp: set_zip)
  have "clean_amount_cell (iloc_col df1 (length (columns df1) - 1) ! i) = Inr (amts ! i)"
    using la i(2) by (simp add: list_all2_conv_all_nth)
  then have "clean_amount_cell (row ! (length (columns df1) - 1)) = Inr am"
    using i by (simp add: iloc_col_def)
  moreover have "row \<in> set (rows df1)" using i by auto
  ultimately show ?thesis using z(2) by auto
qed

lemma filter_payment_transactions_subset:
  assumes "filter_payment_transactions df2 = Inr df3"
  shows "l_columns df3 = l_columns df2 \<and> set (l_rows df3) \<subseteq> set (l_rows df2)"
  using assms by (auto simp: filter_payment_transactions_def select_map split: if_splits)

lemma last_csv_record: "last (csv_record date_str r) = dec_str (t_amount r)"
  by (simp add: csv_record_def)

lemma clean_amount_exponent:
  assumes "clean_amount s = Inr a" "leftmost_match (normalize_minus s) m"
  shows "d_exp a = - int (length (takeWhile is_digit (rev m)))"
proof -
  have rs: "re_search (normalize_minus s) = Some m" using assms(2) by (simp add: re_search_iff)
  have "amount_pattern m" using assms(2) by (auto simp: leftmost_match_def)
  then obtain run0 ds where m: "m = run0 @ CHR ''.'' # ds" "list_all in_class run0"
    "ds \<noteq> []" "list_all is_digit ds"
    unfolding amount_pattern_def by blast
  have "takeWhile is_digit (rev ds @ CHR ''.'' # rev run0) =
      rev ds @ takeWhile is_digit (CHR ''.'' # rev run0)"
    by (rule takeWhile_append2) (use m(4) in \<open>simp add: list_all_iff\<close>)
  then have tw: "length (takeWhile is_digit (rev m)) = length ds" by (simp add: m(1))
  define run where "run = filter (\<lambda>c. c \<noteq> CHR '','') run0"
  have "\<forall>c\<in>set ds. c \<noteq> CHR '',''"
    using m(4) not_comma_digit unfolding list_all_iff by blast
  then have "filter (\<lambda>c. c \<noteq> CHR '','') ds = ds" by (simp add: filter_id_conv)
  then have u: "replace_comma m = run @ CHR ''.'' # ds"
    by (simp add: replace_comma_def m(1) run_def)
  have sr: "list_all in_signed run"
    using m(2) class_signed unfolding list_all_iff run_def by auto
  have c: "clean_amount s = Decimal (run @ CHR ''.'' # ds)"
    using rs strip_stripped[OF sr m(4,3)] by (simp add: clean_amount_def u)
  have "CHR ''-'' \<notin> set (tl (run @ CHR ''.'' # ds))"
  proof
    assume "CHR ''-'' \<in> set (tl (run @ CHR ''.'' # ds))"
    then have "Decimal (run @ CHR ''.'' # ds) = Inl InvalidOperation"
      by (rule Decimal_literal_bad[OF sr m(4,3)])
    with c assms(1) show False by simp
  qed
  then obtain d where "Decimal (run @ CHR ''.'' # ds) = Inr d" "d_exp d = - int (length ds)"
    using Decimal_literal_ok[OF sr m(4,3)] by blast
  with c assms(1) tw show ?thesis by simp
qed

subsection \<open>The file of a successful run\<close>

definition combined_transaction_df :: "frame list \<Rightarrow> frame" where
  \<comment> \<open>the value of the variable of that name in \<^verbatim>\<open>process_pdf\<close>\<close>
  "combined_transaction_df tables =
     pd_concat (filter is_transaction_table (map clean_columns tables))"

lemma process_pdf_saved:
  assumes "process_pdf to_datetime date_str tables = Saved csv"
  shows "\<exists>df. transactions to_datetime (combined_transaction_df tables) = Inr df \<and>
           csv = save_to_csv date_str df"
  using assms
  by (auto simp: process_pdf_def combined_transaction_df_def Let_def split: if_splits sum.splits)

lemma transactions_Inr:
  assumes "transactions to_datetime combined = Inr df"
  shows "\<exists>df1 df2 df3. clean_transaction_data to_datetime combined = Inr df1 \<and>
           convert_data_types to_datetime df1 = Inr df2 \<and>
           filter_payment_transactions df2 = Inr df3 \<and> df = flip_amount_sign df3"
  using assms by (auto simp: transactions_def simp del: One_nat_def split: sum.splits)

text \<open>
  Claim C9, as the code has it.  The file of a run that reached \<^const>\<open>save_to_csv\<close> is
  written as UTF-8 behind a byte-order mark.  Its header holds the column names of the
  sanitized table, which are the first, third and fourth name when the combined table
  has four columns, and it has one record per final transaction.  The last field of a
  record is \<^verbatim>\<open>str\<close> of the negated \<^verbatim>\<open>Decimal\<close> of an amount cell of the sanitized table: the
  code formats nothing.  That text has exactly two fraction digits when the amount has
  the exponent \<open>-2\<close> and fewer than 29 digits; and the exponent of an amount is the number
  of digits after the point in the text it was parsed from.
\<close>

theorem exported_csv:
  assumes "process_pdf to_datetime date_str tables = Saved csv"
  shows "\<exists>df1 df.
     clean_transaction_data to_datetime (combined_transaction_df tables) = Inr df1 \<and>
     transactions to_datetime (combined_transaction_df tables) = Inr df \<and>
     f_encoding csv = UTF8_SIG \<and>
     f_header csv = columns df1 \<and>
     (length (columns (combined_transaction_df tables)) = 4 \<longrightarrow>
        f_header csv = [columns (combined_transaction_df tables) ! 0,
                        columns (combined_transaction_df tables) ! 2,
                        columns (combined_transaction_df tables) ! 3]) \<and>
     f_records csv = map (csv_record date_str) (l_rows df) \<and>
     list_all (\<lambda>rec. \<exists>r a. r \<in> set (rows df1) \<and>
                  clean_amount_cell (r ! (length (columns df1) - 1)) = Inr a \<and>
                  last rec = dec_str (dec_neg a) \<and>
                  (d_exp a = - 2 \<and> d_int a < 10 ^ prec \<longrightarrow> fraction_digits (last rec) = Some 2))
       (f_records csv) \<and>
     (\<forall>s a m. clean_amount s = Inr a \<and> leftmost_match (normalize_minus s) m \<longrightarrow>
        d_exp a = - int (length (takeWhile is_digit (rev m))))"
proof -
  let ?c = "combined_transaction_df tables"
  from process_pdf_saved[OF assms] obtain df where
    t: "transactions to_datetime ?c = Inr df" and csv: "csv = save_to_csv date_str df" by blast
  from transactions_Inr[OF t] obtain df1 df2 df3 where
    s: "clean_transaction_data to_datetime ?c = Inr df1"
    "convert_data_types to_datetime df1 = Inr df2"
    "filter_payment_transactions df2 = Inr df3" "df = flip_amount_sign df3" by blast
  have cols: "l_columns df = columns df1"
    using s(4) filter_payment_transactions_subset[OF s(3)] convert_data_types_columns[OF s(2)]
    by (simp add: flip_amount_sign_def)
  have h: "f_header csv = columns df1" using cols by (simp add: csv save_to_csv_def)
  have d: "distinct (columns ?c)" unfolding combined_transaction_df_def by (rule accepted_distinct)
  have h4: "length (columns ?c) = 4 \<longrightarrow>
      f_header csv = [columns ?c ! 0, columns ?c ! 2, columns ?c ! 3]"
    using retained_names[OF s(1) _ d] h by simp
  have recs: "f_records csv = map (csv_record date_str) (l_rows df)"
    by (simp add: csv save_to_csv_def)
  have "\<exists>r a. r \<in> set (rows df1) \<and> clean_amount_cell (r ! (length (columns df1) - 1)) = Inr a \<and>
                last rec = dec_str (dec_neg a) \<and>
                (d_exp a = - 2 \<and> d_int a < 10 ^ prec \<longrightarrow> fraction_digits (last rec) = Some 2)"
    if "rec \<in> set (f_records csv)" for rec
  proof -
    from that recs obtain t' where t': "t' \<in> set (l_rows df)" "rec = csv_record date_str t'" by auto
    then obtain t where t3: "t \<in> set (l_rows df3)" "t' = t\<lparr>t_amount := dec_neg (t_amount t)\<rparr>"
      using s(4) by (auto simp: flip_amount_sign_def)
    then have "t \<in> set (l_rows df2)" using filter_payment_transactions_subset[OF s(3)] by auto
    then obtain r where r: "r \<in> set (rows df1)"
      "clean_amount_cell (r ! (length (columns df1) - 1)) = Inr (t_amount t)"
      using convert_data_types_amounts[OF s(2)] by blast
    have l: "last rec = dec_str (dec_neg (t_amount t))"
      using t'(2) t3(2) by (simp add: last_csv_record)
    have "d_exp (t_amount t) = - 2 \<and> d_int (t_amount t) < 10 ^ prec \<longrightarrow>
        fraction_digits (last rec) = Some 2"
      using two_fraction_digits[of "t_amount t"] l by simp
    with r l show ?thesis by blast
  qed
  then have la: "list_all (\<lambda>rec. \<exists>r a. r \<in> set (rows df1) \<and>
                  clean_amount_cell (r ! (length (columns df1) - 1)) = Inr a \<and>
                  last rec = dec_str (dec_neg a) \<and>
                  (d_exp a = - 2 \<and> d_int a < 10 ^ prec \<longrightarrow> fraction_digits (last rec) = Some 2))
       (f_records csv)"
    unfolding list_all_iff by blast
  have enc: "f_encoding csv = UTF8_SIG" by (simp add: csv save_to_csv_def)
  have ex: "\<forall>s a m. clean_amount s = Inr a \<and> leftmost_match (normalize_minus s) m \<longrightarrow>
        d_exp a = - int (length (takeWhile is_digit (rev m)))"
    using clean_amount_exponent by blast
  from s(1) t enc h h4 recs la ex show ?thesis by blast
qed

subsection \<open>The sample run, to the file\<close>

lemma sample_clean_columns: "clean_columns sample_table = sample_table"
  by (simp add: sample_table_def clean_columns_eval)

lemma sample_header: "is_transaction_table sample_table"
  by (simp add: sample_table_def header_eval)

lemma sample_combined: "combined_transaction_df [sample_table] = sample_table"
  by (simp add: combined_transaction_df_def sample_clean_columns sample_header)
     (simp add: pd_concat_def sample_table_def)

lemma sample_sanitized:
  "clean_transaction_data strptime_dmy sample_table =
     Inr \<lparr>columns = [''TRANS. DATE'', ''DESCRIPTION'', ''AMOUNT (BAHT)''],
          rows = [[Str ''02/01/23'', Str ''Purchase'', Str ''2,000.00''],
                  [Str ''03/01/23'', Str ''Payment'', Str ''-1,000.00''],
                  [Str ''04/01/23'', Str ''Purchase'', Str ''3,000.00'']]\<rparr>"
  by (simp add: sample_table_def dropna_def drop_label_def date_amount_filter_def
      clean_transaction_data_def select_def iloc_col_def is_valid_date_def is_valid_amount_def
      astype_str_def notna_def Let_def sample_amounts sample_dates)

lemma sample_reconciled:
  "validate_transaction_totals sample_ledger \<lparr>d_sign = False, d_int = 100000, d_exp = - 2\<rparr>
     \<lparr>d_sign = False, d_int = 500000, d_exp = - 2\<rparr> = Inr ()"
  by (simp add: validate_transaction_totals_def Let_def sample_total dec_ne_def rescale_def
      signed_int_def)

definition sample_final :: "(nat \<times> nat \<times> nat) ledger" where
  "sample_final =
     \<lparr>l_columns = [''TRANS. DATE'', ''DESCRIPTION'', ''AMOUNT (BAHT)''],
      l_rows =
        [\<lparr>t_date = Some (2, 1, 2023), t_mid = [Str ''Purchase''],
          t_amount = \<lparr>d_sign = True, d_int = 200000, d_exp = - 2\<rparr>\<rparr>,
         \<lparr>t_date = Some (4, 1, 2023), t_mid = [Str ''Purchase''],
          t_amount = \<lparr>d_sign = True, d_int = 300000, d_exp = - 2\<rparr>\<rparr>]\<rparr>"

lemma sample_filtered_flipped:
  "filter_payment_transactions sample_ledger = Inr df3 \<Longrightarrow> flip_amount_sign df3 = sample_final"
  by (auto simp: filter_payment_transactions_def sample_ledger_def select_def payment_mask_def
      dec_lt0_def startswith_payment_def flip_amount_sign_def sample_final_def dec_neg_small prec_def)

lemma sample_filter_ok: "\<exists>df3. filter_payment_transactions sample_ledger = Inr df3"
  by (simp add: filter_payment_transactions_def sample_ledger_def)

lemma sample_transactions: "transactions strptime_dmy sample_table = Inr sample_final"
proof -
  obtain df3 where f: "filter_payment_transactions sample_ledger = Inr df3"
    using sample_filter_ok by blast
  have i: "iloc_last sample_table 0 = Inr (Str ''1,000.00'')"
    "iloc_last sample_table (length (rows sample_table) - 1) = Inr (Str ''5,000.00'')"
    by (simp_all add: iloc_last_def sample_table_def)
  show ?thesis
    by (simp add: transactions_def i clean_amount_cell_def sample_amounts sample_sanitized
        sample_converted sample_reconciled f sample_filtered_flipped[OF f] del: One_nat_def)
qed

definition sample_csv :: csv_file where
  "sample_csv =
     \<lparr>f_encoding = UTF8_SIG,
      f_header = [''TRANS. DATE'', ''DESCRIPTION'', ''AMOUNT (BAHT)''],
      f_records = [[''2023-01-02'', ''Purchase'', ''-2000.00''],
                   [''2023-01-04'', ''Purchase'', ''-3000.00'']]\<rparr>"

lemma sample_saved: "save_to_csv iso_date sample_final = sample_csv"
  by (simp add: save_to_csv_def sample_final_def sample_csv_def csv_record_def csv_cell_def
      iso_date_def dec_str_def Let_def digits_of.simps digit_char_def)

lemma sample_process_pdf: "process_pdf strptime_dmy iso_date [sample_table] = Saved sample_csv"
  using sample_transactions sample_saved sample_combined sample_header sample_clean_columns
  by (simp add: process_pdf_def combined_transaction_df_def Let_def)

text \<open>
  The theorem of C9 on the sample table: the file has the three retained names, the two
  transactions left after the payment is removed, and amounts of two fraction digits.
\<close>

theorem exported_csv_witness:
  "process_pdf strptime_dmy iso_date [sample_table] = Saved sample_csv \<and>
   f_encoding sample_csv = UTF8_SIG \<and>
   f_header sample_csv = [''TRANS. DATE'', ''DESCRIPTION'', ''AMOUNT (BAHT)''] \<and>
   length (f_records sample_csv) = 2 \<and>
   list_all (\<lambda>rec. fraction_digits (last rec) = Some 2) (f_records sample_csv)"
proof -
  from exported_csv[OF sample_process_pdf] obtain df1 df where
    e: "f_encoding sample_csv = UTF8_SIG"
    "length (columns (combined_transaction_df [sample_table])) = 4 \<longrightarrow>
        f_header sample_csv = [columns (combined_transaction_df [sample_table]) ! 0,
                        columns (combined_transaction_df [sample_table]) ! 2,
                        columns (combined_transaction_df [sample_table]) ! 3]"
    by blast
  have h: "f_header sample_csv = [''TRANS. DATE'', ''DESCRIPTION'', ''AMOUNT (BAHT)'']"
    using e(2) by (simp add: sample_combined) (simp add: sample_table_def)
  have f: "list_all (\<lambda>rec. fraction_digits (last rec) = Some 2) (f_records sample_csv)"
    by (simp add: sample_csv_def fraction_digits_def)
  show ?thesis using sample_process_pdf e(1) h f by (simp add: sample_csv_def)
qed

subsection \<open>A run with one fraction digit\<close>

definition one_digit_table :: frame where
  "one_digit_table =
     \<lparr>columns = [''TRANS. DATE'', ''POSTING DATE'', ''DESCRIPTION'', ''AMOUNT (BAHT)''],
      rows = [[Str '''', Str '''', Str ''Starting Balance'', Str ''0.0''],
              [Str ''02/01/23'', Str ''02/01/23'', Str ''Shop'', Str ''12.5''],
              [Str '''', Str '''', Str ''Ending Balance'', Str ''12.5'']]\<rparr>"

lemma one_digit_amounts:
  "clean_amount ''0.0'' = Inr \<lparr>d_sign = False, d_int = 0, d_exp = - 1\<rparr>"
  "clean_amount ''12.5'' = Inr \<lparr>d_sign = False, d_int = 125, d_exp = - 1\<rparr>"
  by (simp_all add: amount_eval)

lemma one_digit_combined: "combined_transaction_df [one_digit_table] = one_digit_table"
proof -
  have "clean_columns one_digit_table = one_digit_table"
    by (simp add: one_digit_table_def clean_columns_eval)
  moreover have "is_transaction_table one_digit_table"
    by (simp add: one_digit_table_def header_eval)
  moreover have "pd_concat [one_digit_table] = one_digit_table"
    by (simp add: pd_concat_def one_digit_table_def)
  ultimately show ?thesis by (simp add: combined_transaction_df_def)
qed

lemma one_digit_transactions:
  "transactions strptime_dmy one_digit_table =
     Inr \<lparr>l_columns = [''TRANS. DATE'', ''DESCRIPTION'', ''AMOUNT (BAHT)''],
          l_rows = [\<lparr>t_date = Some (2, 1, 2023), t_mid = [Str ''Shop''],
                    t_amount = \<lparr>d_sign = True, d_int = 125, d_exp = - 1\<rparr>\<rparr>]\<rparr>"
proof -
  have i: "iloc_last one_digit_table 0 = Inr (Str ''0.0'')"
    "iloc_last one_digit_table (length (rows one_digit_table) - 1) = Inr (Str ''12.5'')"
    by (simp_all add: iloc_last_def one_digit_table_def)
  have s: "clean_transaction_data strptime_dmy one_digit_table =
     Inr \<lparr>columns = [''TRANS. DATE'', ''DESCRIPTION'', ''AMOUNT (BAHT)''],
          rows = [[Str ''02/01/23'', Str ''Shop'', Str ''12.5'']]\<rparr>"
    by (simp add: one_digit_table_def dropna_def drop_label_def date_amount_filter_def
        clean_transaction_data_def select_def iloc_col_def is_valid_date_def is_valid_amount_def
        astype_str_def notna_def Let_def one_digit_amounts sample_dates)
  define L where "L = \<lparr>l_columns = [''TRANS. DATE'', ''DESCRIPTION'', ''AMOUNT (BAHT)''],
          l_rows = [\<lparr>t_date = Some (2 :: nat, 1 :: nat, 2023 :: nat), t_mid = [Str ''Shop''],
                    t_amount = \<lparr>d_sign = False, d_int = 125, d_exp = - 1\<rparr>\<rparr>]\<rparr>"
  have c: "convert_data_types strptime_dmy
     \<lparr>columns = [''TRANS. DATE'', ''DESCRIPTION'', ''AMOUNT (BAHT)''],
      rows = [[Str ''02/01/23'', Str ''Shop'', Str ''12.5'']]\<rparr> = Inr L"
    by (simp add: convert_data_types_def iloc_col_def to_datetime_raise_def clean_amount_cell_def
        one_digit_amounts sample_dates L_def)
  have v: "validate_transaction_totals L \<lparr>d_sign = False, d_int = 0, d_exp = - 1\<rparr>
      \<lparr>d_sign = False, d_int = 125, d_exp = - 1\<rparr> = Inr ()"
    by (simp add: validate_transaction_totals_def Let_def series_sum_def amounts_def L_def
        dec_add_def rescale_def dec_fix_small prec_def dec_ne_def signed_int_def)
  have f: "filter_payment_transactions L = Inr L"
    by (simp add: filter_payment_transactions_def L_def select_def payment_mask_def dec_lt0_def)
  have n: "flip_amount_sign L = \<lparr>l_columns = [''TRANS. DATE'', ''DESCRIPTION'', ''AMOUNT (BAHT)''],
          l_rows = [\<lparr>t_date = Some (2, 1, 2023), t_mid = [Str ''Shop''],
                    t_amount = \<lparr>d_sign = True, d_int = 125, d_exp = - 1\<rparr>\<rparr>]\<rparr>"
    by (simp add: flip_amount_sign_def L_def dec_neg_small prec_def)
  show ?thesis
    by (simp add: transactions_def i clean_amount_cell_def one_digit_amounts s c v f n
        del: One_nat_def)
qed

text \<open>
  Claim C9 as stated fails.  The run on a statement whose amounts are printed with one
  fraction digit reconciles (\<open>0.0 + 12.5 = 12.5\<close>) and writes the amount as \<^verbatim>\<open>-12.5\<close>, with
  one fraction digit.
\<close>

theorem exported_csv_one_digit_counterexample:
  "process_pdf strptime_dmy iso_date [one_digit_table] =
     Saved \<lparr>f_encoding = UTF8_SIG,
            f_header = [''TRANS. DATE'', ''DESCRIPTION'', ''AMOUNT (BAHT)''],
            f_records = [[''2023-01-02'', ''Shop'', ''-12.5'']]\<rparr> \<and>
   fraction_digits ''-12.5'' = Some 1"
proof -
  have "save_to_csv iso_date
      \<lparr>l_columns = [''TRANS. DATE'', ''DESCRIPTION'', ''AMOUNT (BAHT)''],
       l_rows = [\<lparr>t_date = Some (2, 1, 2023), t_mid = [Str ''Shop''],
                 t_amount = \<lparr>d_sign = True, d_int = 125, d_exp = - 1\<rparr>\<rparr>]\<rparr> =
      \<lparr>f_encoding = UTF8_SIG,
       f_header = [''TRANS. DATE'', ''DESCRIPTION'', ''AMOUNT (BAHT)''],
       f_records = [[''2023-01-02'', ''Shop'', ''-12.5'']]\<rparr>"
    by (simp add: save_to_csv_def csv_record_def csv_cell_def iso_date_def dec_str_def Let_def
        digits_of.simps digit_char_def)
  moreover have "is_transaction_table one_digit_table"
    by (simp add: one_digit_table_def header_eval)
  moreover have "clean_columns one_digit_table = one_digit_table"
    by (simp add: one_digit_table_def clean_columns_eval)
  moreover have "pd_concat [one_digit_table] = one_digit_table"
    by (simp add: pd_concat_def one_digit_table_def)
  ultimately show ?thesis
    using one_digit_transactions
    by (simp add: process_pdf_def Let_def fraction_digits_def)
qed

end
